theory Spec2Isabelle
  imports Complex_Main "HOL-Library.Product_Lexorder" "HOL-Library.List_Lexorder"
    "HOL-Library.Multiset"
begin

section \<open>Strings\<close>

text \<open>
  A Python \<^verbatim>\<open>str\<close> is a sequence of Unicode code points: \<^verbatim>\<open>len\<close> counts code
  points and \<^verbatim>\<open>in\<close> is the substring test. The model is a list of code points;
  the string literals of the source are written by code point, with the source text
  described in the comment of each constant.
\<close>

type_synonym ustr = "nat list"

definition ascii :: "string \<Rightarrow> ustr" where
  "ascii s = map of_char s"

fun starts_with :: "ustr \<Rightarrow> ustr \<Rightarrow> bool" where
  "starts_with [] s = True"
| "starts_with (k # ks) [] = False"
| "starts_with (k # ks) (c # cs) = (k = c \<and> starts_with ks cs)"

text \<open>\<^verbatim>\<open>k in t\<close> on strings.\<close>

fun contains :: "ustr \<Rightarrow> ustr \<Rightarrow> bool" where
  "contains k [] = (k = [])"
| "contains k (c # cs) = (starts_with k (c # cs) \<or> contains k cs)"

text \<open>
  The character tables of the Python runtime are not part of the repository:
  \<^verbatim>\<open>str.lower\<close>, the white space of \<^verbatim>\<open>str.strip\<close> and of \<^verbatim>\<open>\s\<close>, the decimal
  digits of \<^verbatim>\<open>\d\<close> and the digits of \<^verbatim>\<open>str.isdigit\<close>. Every function that uses one
  of them takes the tables as its first argument.
\<close>

record unicode =
  u_lower :: "ustr \<Rightarrow> ustr"
  u_isspace :: "nat \<Rightarrow> bool"
  u_isdecimal :: "nat \<Rightarrow> bool"
  u_isdigit :: "nat \<Rightarrow> bool"

text \<open>
  The tables restricted to ASCII, for running the model on concrete inputs. On
  strings of ASCII characters and CJK ideographs they agree with the runtime's: the
  ideographs U+4E00 to U+9FFF have no case, are no digits and no white space.
\<close>

definition ascii_lower_char :: "nat \<Rightarrow> nat" where
  "ascii_lower_char c = (if 65 \<le> c \<and> c \<le> 90 then c + 32 else c)"

definition ascii_isspace :: "nat \<Rightarrow> bool" where
  "ascii_isspace c = ((9 \<le> c \<and> c \<le> 13) \<or> (28 \<le> c \<and> c \<le> 32))"

definition ascii_isdigit :: "nat \<Rightarrow> bool" where
  "ascii_isdigit c = (48 \<le> c \<and> c \<le> 57)"

definition ascii_tables :: unicode where
  "ascii_tables =
     \<lparr>u_lower = map ascii_lower_char, u_isspace = ascii_isspace,
      u_isdecimal = ascii_isdigit, u_isdigit = ascii_isdigit\<rparr>"

text \<open>\<^verbatim>\<open>s.strip()\<close>: white space is removed at both ends.\<close>

definition strip :: "unicode \<Rightarrow> ustr \<Rightarrow> ustr" where
  "strip U s = rev (dropWhile (u_isspace U) (rev (dropWhile (u_isspace U) s)))"

text \<open>
  \<^verbatim>\<open>s.split(sep)\<close> with a separator: the string is cut at the occurrences of the
  separator, found from left to right without overlap. An empty separator raises
  \<^verbatim>\<open>ValueError\<close>, which the callers model; the loop below is only run with a
  separator that is not empty.
\<close>

function split_loop :: "ustr \<Rightarrow> ustr \<Rightarrow> ustr \<Rightarrow> ustr list" where
  "split_loop sep cur s =
     (if s = [] then [rev cur]
      else if sep \<noteq> [] \<and> starts_with sep s
        then rev cur # split_loop sep [] (drop (length sep) s)
      else split_loop sep (hd s # cur) (tl s))"
  by pat_completeness auto
termination
  by (relation "measure (\<lambda>(sep, cur, s). length s)") auto

declare split_loop.simps [simp del]

definition split :: "ustr \<Rightarrow> ustr \<Rightarrow> ustr list" where
  "split sep s = split_loop sep [] s"

section \<open>Anomaly levels\<close>

text \<open>
  \<^verbatim>\<open>charting.py\<close>:
  \<^verbatim>\<open>
  def detect_alert_level(value):
      a = abs(int(value))
      if a >= 1200: return "extreme label"
      if a >= 800:  return "major label"
      if a >= 400:  return "large order label"
      return None
  \<close>
  The labels are the strings U+6975 U+7AEF (extreme), U+91CD U+5927 U+5E03 U+5C40
  (major) and U+5927 U+55AE (large order).
\<close>

definition label_extreme :: ustr where
  "label_extreme = [26997, 31471]"

definition label_major_layout :: ustr where
  "label_major_layout = [37325, 22823, 24067, 23616]"

definition label_major :: ustr where
  "label_major = [37325, 22823]"

definition label_big_order :: ustr where
  "label_big_order = [22823, 21934]"

definition detect_alert_level :: "int \<Rightarrow> ustr option" where
  "detect_alert_level v =
     (let a = \<bar>v\<bar> in
      if a \<ge> 1200 then Some label_extreme
      else if a \<ge> 800 then Some label_major_layout
      else if a \<ge> 400 then Some label_big_order
      else None)"

text \<open>
  \<^verbatim>\<open>txo_db_ui.py\<close>: the table \<^verbatim>\<open>ANOM_THRESH\<close> and the level assignment in the
  loop of \<^verbatim>\<open>detect_anomalies_for_date\<close>. The source reads \<^verbatim>\<open>ANOM_THRESH["extreme"]\<close>,
  \<^verbatim>\<open>ANOM_THRESH["major"][0]\<close> and \<^verbatim>\<open>ANOM_THRESH["big_order"][0]\<close>.
\<close>

definition ANOM_THRESH_big_order :: "int \<times> int" where
  "ANOM_THRESH_big_order = (400, 800)"

definition ANOM_THRESH_major :: "int \<times> int" where
  "ANOM_THRESH_major = (800, 1200)"

definition ANOM_THRESH_extreme :: int where
  "ANOM_THRESH_extreme = 1200"

definition anomaly_level :: "int \<Rightarrow> ustr option" where
  "anomaly_level delta =
     (let absd = \<bar>delta\<bar> in
      if absd \<ge> ANOM_THRESH_extreme then Some label_extreme
      else if absd \<ge> fst ANOM_THRESH_major then Some label_major
      else if absd \<ge> fst ANOM_THRESH_big_order then Some label_big_order
      else None)"

section \<open>Backtest performance calculator\<close>

text \<open>
  \<^verbatim>\<open>calculate_max_drawdown\<close> and \<^verbatim>\<open>calculate_performance\<close> of the backtest
  engine. Python floats are modelled as exact reals. The exceptions the source can
  raise are values: indexing an empty curve is \<open>IndexError\<close>, a running peak of zero
  is \<open>ZeroDivisionError\<close>.
\<close>

datatype py_error = IndexError | ZeroDivisionError

fun drawdown_loop :: "real \<Rightarrow> real \<Rightarrow> real list \<Rightarrow> py_error + real" where
  "drawdown_loop peak max_dd [] = Inr max_dd"
| "drawdown_loop peak max_dd (equity # rest) =
     (let peak' = (if equity > peak then equity else peak) in
      if peak' = 0 then Inl ZeroDivisionError
      else let dd = (peak' - equity) / peak' in
           drawdown_loop peak' (if dd > max_dd then dd else max_dd) rest)"

definition calculate_max_drawdown :: "real list \<Rightarrow> py_error + real" where
  "calculate_max_drawdown equity_curve =
     (case equity_curve of
        [] \<Rightarrow> Inl IndexError
      | e0 # _ \<Rightarrow> drawdown_loop e0 0 equity_curve)"

text \<open>
  A trade is a dictionary with the keys \<^verbatim>\<open>type\<close>, \<^verbatim>\<open>position\<close> and \<^verbatim>\<open>price\<close>
  (the keys \<^verbatim>\<open>strategy\<close> and \<^verbatim>\<open>datetime\<close> are only copied into the trade
  records and are left out).
\<close>

record trade =
  ttype :: ustr
  position :: ustr
  price :: real

definition net_pnl :: "real \<Rightarrow> trade \<Rightarrow> trade \<Rightarrow> real" where
  "net_pnl commission entry exit_trade =
     (let pnl_points = (if position entry = ascii ''long''
                        then price exit_trade - price entry
                        else price entry - price exit_trade);
          trade_cost = (price entry + price exit_trade) * commission
      in pnl_points - trade_cost)"

text \<open>
  The pairing loop \<^verbatim>\<open>for i in range(0, len(trades)-1, 2)\<close>: it looks at the trades
  two by two and returns, for every entry/exit pair, the net result and the equity
  after it.
\<close>

fun pair_trades :: "real \<Rightarrow> real \<Rightarrow> trade list \<Rightarrow> (real \<times> real) list" where
  "pair_trades commission current_equity (a # b # rest) =
     (if ttype a = ascii ''entry'' \<and> ttype b = ascii ''exit''
      then let pnl = net_pnl commission a b; eq' = current_equity + pnl
           in (pnl, eq') # pair_trades commission eq' rest
      else pair_trades commission current_equity rest)"
| "pair_trades commission current_equity _ = []"

datatype profit_factor_value = Finite real | Infinite

record performance =
  total_trades :: nat
  winning_trades :: nat
  losing_trades :: nat
  win_rate :: real
  total_profit :: real
  total_loss :: real
  profit_factor :: profit_factor_value
  max_drawdown :: real
  final_equity :: real
  total_return :: real
  equity_curve :: "real list"

definition calculate_performance :: "real \<Rightarrow> trade list \<Rightarrow> py_error + performance option" where
  "calculate_performance commission trades =
     (if length trades < 2 then Inr None
      else
        let records = pair_trades commission 100000 trades;
            curve = 100000 # map snd records;
            current_equity = last curve;
            pnls = map fst records
        in if records = [] then Inr None
           else
             let n = length records;
                 wins = filter (\<lambda>p. p > 0) pnls;
                 losses = filter (\<lambda>p. p < 0) pnls;
                 profit = sum_list wins;
                 loss = \<bar>sum_list losses\<bar>
             in case calculate_max_drawdown curve of
                  Inl e \<Rightarrow> Inl e
                | Inr dd \<Rightarrow>
                    Inr (Some \<lparr>
                      total_trades = n,
                      winning_trades = length wins,
                      losing_trades = length losses,
                      win_rate = (if n > 0 then real (length wins) / real n else 0),
                      total_profit = profit,
                      total_loss = loss,
                      profit_factor = (if loss > 0 then Finite (profit / loss) else Infinite),
                      max_drawdown = dd,
                      final_equity = current_equity,
                      total_return = (current_equity - 100000) / 100000,
                      equity_curve = curve \<rparr>))"

text \<open>
  The reference notions the drawdown is compared with: the running peak at a position
  is the largest equity at or before it, the drawdown there is the relative distance
  of the equity from that peak.
\<close>

definition running_peak :: "real list \<Rightarrow> nat \<Rightarrow> real" where
  "running_peak curve i = Max (set (take (Suc i) curve))"

definition drawdown_at :: "real list \<Rightarrow> nat \<Rightarrow> real" where
  "drawdown_at curve i = (running_peak curve i - curve ! i) / running_peak curve i"

text \<open>The drawdowns the loop computes, position by position, from a starting peak.\<close>

fun drawdowns :: "real \<Rightarrow> real list \<Rightarrow> real list" where
  "drawdowns peak [] = []"
| "drawdowns peak (e # es) = (max peak e - e) / max peak e # drawdowns (max peak e) es"

text \<open>A small run of two trades, used to exercise the calculator.\<close>

definition sample_trades :: "trade list" where
  "sample_trades =
     [\<lparr>ttype = ascii ''entry'', position = ascii ''long'', price = 100\<rparr>,
      \<lparr>ttype = ascii ''exit'', position = ascii ''long'', price = 90\<rparr>,
      \<lparr>ttype = ascii ''entry'', position = ascii ''short'', price = 90\<rparr>,
      \<lparr>ttype = ascii ''exit'', position = ascii ''short'', price = 60\<rparr>]"

definition sample_result :: performance where
  "sample_result =
     \<lparr>total_trades = 2, winning_trades = 1, losing_trades = 1, win_rate = 1 / 2,
      total_profit = 30, total_loss = 10, profit_factor = Finite 3,
      max_drawdown = 1 / 10000, final_equity = 100020, total_return = 20 / 100000,
      equity_curve = [100000, 99990, 100020]\<rparr>"

section \<open>Robust loader: the header row\<close>

text \<open>
  \<^verbatim>\<open>data_loader.py\<close>:
  \<^verbatim>\<open>
  def find_header_row(lines, delimiter):
      keywords = [k1, k2, k3]
      for i, ln in enumerate(lines[:10]):
          toks = [t.strip() for t in ln.split(delimiter)]
          if all(any(k in t for t in toks) for k in keywords):
              return i
      return 0
  \<close>
  The keywords are U+4EA4 U+6613 U+65E5 U+671F (trade date), U+5C65 U+7D04 (strike)
  and U+8CB7 U+8CE3 U+6B0A (call/put).
\<close>

definition kw_trade_date :: ustr where
  "kw_trade_date = [20132, 26131, 26085, 26399]"

definition kw_strike :: ustr where
  "kw_strike = [23653, 32004]"

definition kw_call_put :: ustr where
  "kw_call_put = [36023, 36067, 27402]"

definition header_keywords :: "ustr list" where
  "header_keywords = [kw_trade_date, kw_strike, kw_call_put]"

definition line_has_keywords :: "unicode \<Rightarrow> ustr \<Rightarrow> ustr \<Rightarrow> bool" where
  "line_has_keywords U delimiter line =
     (let toks = map (strip U) (split delimiter line)
      in list_all (\<lambda>k. list_ex (\<lambda>t. contains k t) toks) header_keywords)"

datatype loader_error = ValueError

fun find_header_loop :: "unicode \<Rightarrow> ustr \<Rightarrow> nat \<Rightarrow> ustr list \<Rightarrow> loader_error + nat" where
  "find_header_loop U delimiter i [] = Inr 0"
| "find_header_loop U delimiter i (line # rest) =
     (if delimiter = [] then Inl ValueError
      else if line_has_keywords U delimiter line then Inr i
      else find_header_loop U delimiter (Suc i) rest)"

definition find_header_row :: "unicode \<Rightarrow> ustr list \<Rightarrow> ustr \<Rightarrow> loader_error + nat" where
  "find_header_row U lines delimiter = find_header_loop U delimiter 0 (take 10 lines)"

text \<open>
  \<^verbatim>\<open>sniff_delimiters\<close>: the candidates comma, tab, semicolon and bar that occur in
  the sample, in this order, and the comma last when it does not occur.
\<close>

definition sniff_delimiters :: "ustr \<Rightarrow> ustr list" where
  "sniff_delimiters sample =
     (let cand = [[44], [9], [59], [124]];
          found = filter (\<lambda>d. contains d sample) cand
      in if [44] \<notin> set found then found @ [[44]] else found)"

text \<open>\<^verbatim>\<open>sep.join(lines)\<close>.\<close>

fun join_with :: "ustr \<Rightarrow> ustr list \<Rightarrow> ustr" where
  "join_with sep [] = []"
| "join_with sep [x] = x"
| "join_with sep (x # y # rest) = x @ sep @ join_with sep (y # rest)"

text \<open>
  \<^verbatim>\<open>attempt_read\<close>. The file system and the CSV reader are not part of the
  repository and are parameters: \<open>read_sample\<close> gives the first lines of the file in
  an encoding, \<open>read_csv\<close> the frame read with an encoding, a delimiter and a header
  row; both give \<open>None\<close> when they raise. A frame is a list of columns, a label with
  the cells below it, all cells being strings.

  A column is dropped when all its cells are empty after stripping; a label is
  stripped, and replaced by U+7A7A U+6B04 U+4F4D when nothing is left. The frame is
  accepted when it has a row and a column and one of the keywords trade date,
  strike, call/put or U+672A U+6C96 U+92B7 U+5951 U+7D04 occurs in the labels joined
  by commas.
\<close>

type_synonym frame = "(ustr \<times> ustr list) list"

record read_info =
  i_encoding :: ustr
  i_delimiter :: ustr
  i_header_row :: nat
  i_sample_lines :: "ustr list"

definition label_empty_column :: ustr where
  "label_empty_column = [31354, 27396, 20301]"

definition kw_open_contracts :: ustr where
  "kw_open_contracts = [26410, 27798, 37559, 22865, 32004]"

definition clean_frame :: "unicode \<Rightarrow> frame \<Rightarrow> frame" where
  "clean_frame U df =
     (let kept = filter (\<lambda>(c, cells). \<not> list_all (\<lambda>v. strip U v = []) cells) df
      in map (\<lambda>(c, cells). (if strip U c \<noteq> [] then strip U c else label_empty_column, cells))
           kept)"

definition frame_empty :: "frame \<Rightarrow> bool" where
  "frame_empty df = (df = [] \<or> snd (hd df) = [])"

definition plausible :: "frame \<Rightarrow> bool" where
  "plausible df =
     (let cols_join = join_with [44] (map fst df)
      in list_ex (\<lambda>k. contains k cols_join)
           [kw_trade_date, kw_strike, kw_call_put, kw_open_contracts])"

fun try_delimiters ::
    "unicode \<Rightarrow> (ustr \<Rightarrow> ustr \<Rightarrow> nat \<Rightarrow> frame option) \<Rightarrow> ustr \<Rightarrow> ustr list \<Rightarrow> ustr list
     \<Rightarrow> loader_error + (frame \<times> read_info) option" where
  "try_delimiters U read_csv enc sample [] = Inr None"
| "try_delimiters U read_csv enc sample (delim # rest) =
     (case find_header_row U sample delim of
        Inl e \<Rightarrow> Inl e
      | Inr h \<Rightarrow>
          (case read_csv enc delim h of
             None \<Rightarrow> try_delimiters U read_csv enc sample rest
           | Some raw \<Rightarrow>
               let df = clean_frame U raw
               in if \<not> frame_empty df \<and> plausible df
                  then Inr (Some (df, \<lparr>i_encoding = enc, i_delimiter = delim, i_header_row = h,
                                       i_sample_lines = take 20 sample\<rparr>))
                  else try_delimiters U read_csv enc sample rest))"

fun try_encodings ::
    "unicode \<Rightarrow> (ustr \<Rightarrow> ustr list option) \<Rightarrow> (ustr \<Rightarrow> ustr \<Rightarrow> nat \<Rightarrow> frame option)
     \<Rightarrow> ustr list \<Rightarrow> loader_error + (frame \<times> read_info) option" where
  "try_encodings U read_sample read_csv [] = Inr None"
| "try_encodings U read_sample read_csv (enc # rest) =
     (case read_sample enc of
        None \<Rightarrow> try_encodings U read_sample read_csv rest
      | Some sample \<Rightarrow>
          (case try_delimiters U read_csv enc sample
                  (sniff_delimiters (join_with [10] sample)) of
             Inl e \<Rightarrow> Inl e
           | Inr (Some r) \<Rightarrow> Inr (Some r)
           | Inr None \<Rightarrow> try_encodings U read_sample read_csv rest))"

definition attempt_read ::
    "unicode \<Rightarrow> ustr list \<Rightarrow> (ustr \<Rightarrow> ustr list option)
     \<Rightarrow> (ustr \<Rightarrow> ustr \<Rightarrow> nat \<Rightarrow> frame option) \<Rightarrow> loader_error + (frame \<times> read_info) option" where
  "attempt_read U enc_guesses read_sample read_csv =
     try_encodings U read_sample read_csv enc_guesses"

text \<open>
  A file with a title line before the header line: the title is
  \<^verbatim>\<open>TXO daily report\<close>, the header has the columns trade date, contract, strike price
  (U+5C65 U+7D04 U+50F9) and call/put, separated by commas.
\<close>

definition titled_file :: "ustr list" where
  "titled_file =
     [ascii ''TXO daily report'',
      [20132, 26131, 26085, 26399, 44, 84, 88, 79, 44, 23653, 32004, 20729, 44, 36023, 36067, 27402],
      ascii ''2024/01/02,TXO,17000,C'']"

text \<open>
  The reading of that file: every encoding gives the three lines, and the CSV reader
  gives, for header row 1, a frame with the columns trade date and strike price.
\<close>

definition titled_frame :: frame where
  "titled_frame =
     [(kw_trade_date, [ascii ''2024/01/02'']), (kw_strike, [ascii ''17000''])]"

definition titled_sample :: "ustr \<Rightarrow> ustr list option" where
  "titled_sample enc = Some titled_file"

definition titled_csv :: "ustr \<Rightarrow> ustr \<Rightarrow> nat \<Rightarrow> frame option" where
  "titled_csv enc delim h = (if h = 1 then Some titled_frame else None)"

definition titled_info :: read_info where
  "titled_info =
     \<lparr>i_encoding = ascii ''utf-8'', i_delimiter = ascii '','', i_header_row = 1,
      i_sample_lines = titled_file\<rparr>"
section \<open>CSV importer: cells\<close>

text \<open>
  A cell of a data frame (a column label or a value) is a \<^verbatim>\<open>str\<close> or some other
  object (a number, a missing value). The source tests \<^verbatim>\<open>isinstance(col, str)\<close> and
  otherwise only uses \<^verbatim>\<open>str(col)\<close>, so another object is modelled by the text that
  \<^verbatim>\<open>str\<close> gives for it.
\<close>

datatype cell = CStr ustr | CObj ustr

fun str_of :: "cell \<Rightarrow> ustr" where
  "str_of (CStr s) = s"
| "str_of (CObj r) = r"

section \<open>CSV importer: symbol extraction\<close>

text \<open>
  \<^verbatim>\<open>_extract_symbol_from_header\<close> and \<^verbatim>\<open>_extract_symbol_from_data\<close> search a cell
  with \<^verbatim>\<open>re.search\<close> for the pattern
  \<^verbatim>\<open>(?:\s|^)(\d{3,6}[A-Za-z]*)\s+([\u4e00-\u9fff]+)\<close>.
  The matcher below follows the regular expression engine: the start positions are
  tried from left to right, at each position the alternatives in their order, and
  every greedy quantifier tries the largest count first and backs off one by one.
\<close>

definition is_ascii_letter :: "nat \<Rightarrow> bool" where
  "is_ascii_letter c = ((65 \<le> c \<and> c \<le> 90) \<or> (97 \<le> c \<and> c \<le> 122))"

definition is_cjk :: "nat \<Rightarrow> bool" where
  "is_cjk c = (19968 \<le> c \<and> c \<le> 40959)"

definition run_length :: "(nat \<Rightarrow> bool) \<Rightarrow> ustr \<Rightarrow> nat" where
  "run_length P s = length (takeWhile P s)"

text \<open>The counts a greedy quantifier tries, from \<open>hi\<close> down to \<open>lo\<close>.\<close>

definition counts_down :: "nat \<Rightarrow> nat \<Rightarrow> nat list" where
  "counts_down lo hi = rev [lo..<Suc hi]"

fun first_match :: "(nat \<Rightarrow> 'a option) \<Rightarrow> nat list \<Rightarrow> 'a option" where
  "first_match f [] = None"
| "first_match f (n # ns) = (case f n of Some r \<Rightarrow> Some r | None \<Rightarrow> first_match f ns)"

text \<open>\<^verbatim>\<open>([\u4e00-\u9fff]+)\<close> ends the pattern: the longest run matches, if it is not empty.\<close>

definition match_name :: "ustr \<Rightarrow> ustr option" where
  "match_name s = (let name = takeWhile is_cjk s in if name = [] then None else Some name)"

text \<open>\<^verbatim>\<open>\s+\<close> followed by the name.\<close>

definition match_spaces :: "unicode \<Rightarrow> ustr \<Rightarrow> ustr option" where
  "match_spaces U s =
     first_match (\<lambda>w. match_name (drop w s)) (counts_down 1 (run_length (u_isspace U) s))"

text \<open>\<^verbatim>\<open>[A-Za-z]*\<close> followed by the rest; the letters taken are returned with the name.\<close>

definition match_letters :: "unicode \<Rightarrow> ustr \<Rightarrow> (ustr \<times> ustr) option" where
  "match_letters U s =
     first_match (\<lambda>m. map_option (\<lambda>name. (take m s, name)) (match_spaces U (drop m s)))
       (counts_down 0 (run_length is_ascii_letter s))"

text \<open>\<^verbatim>\<open>\d{3,6}\<close> followed by the rest; group 1 is the digits and the letters.\<close>

definition match_code :: "unicode \<Rightarrow> ustr \<Rightarrow> (ustr \<times> ustr) option" where
  "match_code U s =
     first_match
       (\<lambda>k. map_option (\<lambda>(letters, name). (take k s @ letters, name)) (match_letters U (drop k s)))
       (counts_down 3 (min 6 (run_length (u_isdecimal U) s)))"

text \<open>
  The pattern at one start position: first the alternative \<^verbatim>\<open>\s\<close>, which consumes
  a white-space character, then the alternative \<^verbatim>\<open>^\<close>, which only holds at the start
  of the string.
\<close>

definition match_at :: "unicode \<Rightarrow> bool \<Rightarrow> ustr \<Rightarrow> (ustr \<times> ustr) option" where
  "match_at U at_start s =
     (case (case s of [] \<Rightarrow> None
                    | c # cs \<Rightarrow> if u_isspace U c then match_code U cs else None) of
        Some r \<Rightarrow> Some r
      | None \<Rightarrow> if at_start then match_code U s else None)"

fun search_from :: "unicode \<Rightarrow> bool \<Rightarrow> ustr \<Rightarrow> (ustr \<times> ustr) option" where
  "search_from U at_start [] = match_at U at_start []"
| "search_from U at_start (c # cs) =
     (case match_at U at_start (c # cs) of
        Some r \<Rightarrow> Some r
      | None \<Rightarrow> search_from U False cs)"

definition symbol_search :: "unicode \<Rightarrow> ustr \<Rightarrow> (ustr \<times> ustr) option" where
  "symbol_search U s = search_from U True s"

text \<open>
  \<^verbatim>\<open>_is_valid_tw_stock_symbol\<close>: the length is between 3 and 6, the symbol matches
  \<^verbatim>\<open>^\d+[A-Za-z]*$\<close> (\<^verbatim>\<open>$\<close> holds at the end and before a final newline), and the
  length is 4, 5 or 6.
\<close>

definition at_end :: "ustr \<Rightarrow> bool" where
  "at_end r = (r = [] \<or> r = [10])"

definition symbol_format :: "unicode \<Rightarrow> ustr \<Rightarrow> bool" where
  "symbol_format U s =
     list_ex (\<lambda>k. list_all (u_isdecimal U) (take k s)
                \<and> list_ex (\<lambda>m. list_all is_ascii_letter (take m (drop k s))
                               \<and> at_end (drop (k + m) s))
                     [0..<Suc (length s - k)])
       [1..<Suc (length s)]"

definition is_valid_tw_stock_symbol :: "unicode \<Rightarrow> ustr \<Rightarrow> bool" where
  "is_valid_tw_stock_symbol U symbol =
     (if length symbol < 3 \<or> length symbol > 6 then False
      else if \<not> symbol_format U symbol then False
      else if length symbol \<in> {4, 5, 6} then True
      else False)"

record symbol_info =
  symbol :: ustr
  chinese_name :: ustr
  found_in :: ustr
  column_index :: nat
  original_text :: "ustr option"

fun extract_header_loop :: "unicode \<Rightarrow> nat \<Rightarrow> cell list \<Rightarrow> symbol_info option" where
  "extract_header_loop U i [] = None"
| "extract_header_loop U i (CObj r # rest) = extract_header_loop U (Suc i) rest"
| "extract_header_loop U i (CStr col # rest) =
     (case symbol_search U col of
        None \<Rightarrow> extract_header_loop U (Suc i) rest
      | Some (g1, g2) \<Rightarrow>
          let symbol = strip U g1; chinese_name = strip U g2
          in if is_valid_tw_stock_symbol U symbol
             then Some \<lparr>symbol = symbol, chinese_name = chinese_name,
                        found_in = ascii ''header'', column_index = i,
                        original_text = Some col\<rparr>
             else extract_header_loop U (Suc i) rest)"

definition extract_symbol_from_header :: "unicode \<Rightarrow> cell list \<Rightarrow> symbol_info option" where
  "extract_symbol_from_header U header_columns = extract_header_loop U 0 header_columns"

fun extract_data_loop :: "unicode \<Rightarrow> nat \<Rightarrow> cell list \<Rightarrow> symbol_info option" where
  "extract_data_loop U i [] = None"
| "extract_data_loop U i (CObj r # rest) = extract_data_loop U (Suc i) rest"
| "extract_data_loop U i (CStr c # rest) =
     (case symbol_search U c of
        None \<Rightarrow> extract_data_loop U (Suc i) rest
      | Some (g1, g2) \<Rightarrow>
          let symbol = strip U g1; chinese_name = strip U g2
          in if is_valid_tw_stock_symbol U symbol
             then Some \<lparr>symbol = symbol, chinese_name = chinese_name,
                        found_in = ascii ''data'', column_index = i,
                        original_text = None\<rparr>
             else extract_data_loop U (Suc i) rest)"

definition extract_symbol_from_data :: "unicode \<Rightarrow> cell list \<Rightarrow> symbol_info option" where
  "extract_symbol_from_data U data_row = extract_data_loop U 0 data_row"

definition extract_symbol_from_skipped_rows ::
    "unicode \<Rightarrow> cell list \<Rightarrow> cell list \<Rightarrow> symbol_info option" where
  "extract_symbol_from_skipped_rows U first_row second_row =
     (case extract_symbol_from_header U first_row of
        Some info \<Rightarrow> Some info
      | None \<Rightarrow> extract_symbol_from_header U second_row)"

text \<open>
  \<^verbatim>\<open>_auto_detect_stock_symbol\<close>, the second pass: the column labels, then the first
  row of the data.
\<close>

definition auto_detect_stock_symbol ::
    "unicode \<Rightarrow> cell list \<Rightarrow> cell list list \<Rightarrow> symbol_info option" where
  "auto_detect_stock_symbol U columns rows =
     (case extract_symbol_from_header U columns of
        Some info \<Rightarrow> Some info
      | None \<Rightarrow>
          (case rows of
             [] \<Rightarrow> None
           | row # _ \<Rightarrow> extract_symbol_from_data U row))"

text \<open>
  The pattern, stated without the engine: a text \<open>t\<close> begins with a code and a name
  when it is 3 to 6 decimal digits, ASCII letters, white space that is not empty and a
  run of CJK ideographs that is not empty and cannot be extended. The pattern occurs
  at position \<open>i\<close> of a string when \<open>i\<close> holds a white-space character followed by
  such a text, or \<open>i\<close> is the start of the string and the string is such a text.
\<close>

definition pattern_body :: "unicode \<Rightarrow> ustr \<Rightarrow> ustr \<Rightarrow> ustr \<Rightarrow> bool" where
  "pattern_body U t code name =
     (\<exists>ds ls ws rest.
        t = ds @ ls @ ws @ name @ rest \<and> code = ds @ ls
        \<and> 3 \<le> length ds \<and> length ds \<le> 6 \<and> list_all (u_isdecimal U) ds
        \<and> list_all is_ascii_letter ls
        \<and> ws \<noteq> [] \<and> list_all (u_isspace U) ws
        \<and> name \<noteq> [] \<and> list_all is_cjk name
        \<and> (rest = [] \<or> \<not> is_cjk (hd rest)))"

definition occurs_at :: "unicode \<Rightarrow> ustr \<Rightarrow> nat \<Rightarrow> ustr \<Rightarrow> ustr \<Rightarrow> bool" where
  "occurs_at U s i code name =
     ((i < length s \<and> u_isspace U (s ! i) \<and> pattern_body U (drop (Suc i) s) code name)
      \<or> (i = 0 \<and> pattern_body U s code name))"

text \<open>
  What the proofs need of the character tables: a decimal digit is no ASCII letter
  and no white space, and white space is no ASCII letter and no CJK ideograph.
\<close>

definition tables_ok :: "unicode \<Rightarrow> bool" where
  "tables_ok U =
     ((\<forall>c. u_isdecimal U c \<longrightarrow> \<not> is_ascii_letter c \<and> \<not> u_isspace U c)
      \<and> (\<forall>c. u_isspace U c \<longrightarrow> \<not> is_ascii_letter c \<and> \<not> is_cjk c))"

text \<open>
  Cells for the examples: \<^verbatim>\<open>2330\<close>, a space and the name U+53F0 U+7A4D U+96FB; the
  same name after \<^verbatim>\<open>AB\<close>; after the three-digit code \<^verbatim>\<open>123\<close>.
\<close>

definition cell_2330 :: ustr where
  "cell_2330 = ascii ''2330 '' @ [21488, 31309, 38651]"

definition cell_AB :: ustr where
  "cell_AB = ascii ''AB '' @ [21488, 31309, 38651]"

definition cell_123 :: ustr where
  "cell_123 = ascii ''123 '' @ [21488, 31309, 38651]"

section \<open>CSV importer: the type classifier\<close>

text \<open>
  \<^verbatim>\<open>_calculate_data_score\<close>: the plausibility of a row as a header. The three keyword
  sets of the source, written by code point; the ASCII ones are spelled out.
\<close>

definition stock_keywords :: "ustr list" where
  "stock_keywords =
     [ascii ''open'',
      ascii ''high'',
      ascii ''low'',
      ascii ''close'',
      ascii ''volume'',
      ascii ''value'',
      [38283, 30436],
      [26368, 39640],
      [26368, 20302],
      [25910, 30436],
      [25104, 20132, 37327],
      [25104, 20132, 37329, 38989],
      [26085, 26399],
      ascii ''date'',
      [20195, 34399],
      ascii ''symbol'',
      [21517, 31281],
      ascii ''name'']"

definition option_future_keywords :: "ustr list" where
  "option_future_keywords =
     [ascii ''cp'',
      ascii ''call'',
      ascii ''put'',
      ascii ''strike'',
      [23653, 32004, 20729],
      ascii ''expiry'',
      [21040, 26399],
      ascii ''settlement'',
      [32080, 31639, 20729],
      ascii ''oi'',
      [26410, 24179, 20489],
      [30041, 20489]]"

definition non_column_keywords :: "ustr list" where
  "non_column_keywords =
     [[22577, 21578],
      [22577, 34920],
      [36039, 26009],
      [32113, 35336],
      [26126, 32048],
      [34920],
      [24180, 24230],
      [26376, 20221],
      [20844, 21496],
      [32929, 31080],
      [35657, 21048],
      [20132, 26131],
      [24066, 22580],
      [34892, 24773],
      [25237, 36039]]"

definition remove_char :: "nat \<Rightarrow> ustr \<Rightarrow> ustr" where
  "remove_char c s = filter (\<lambda>x. x \<noteq> c) s"

text \<open>\<^verbatim>\<open>s.isdigit()\<close>: the string is not empty and all its characters are digits.\<close>

definition isdigit :: "unicode \<Rightarrow> ustr \<Rightarrow> bool" where
  "isdigit U s = (s \<noteq> [] \<and> list_all (u_isdigit U) s)"

text \<open>The body of the loop over the lowercased texts: the new value of \<^verbatim>\<open>score\<close>.\<close>

definition score_text :: "unicode \<Rightarrow> int \<Rightarrow> ustr \<Rightarrow> int" where
  "score_text U score text =
     (let s1 = (if list_ex (\<lambda>keyword. contains keyword text) stock_keywords
                then score + 2 else score);
          s2 = (if list_ex (\<lambda>keyword. contains keyword text) option_future_keywords
                then s1 + 2 else s1);
          s3 = (if length text \<le> 12
                   \<and> \<not> list_ex (\<lambda>non_word. contains non_word text) non_column_keywords
                then s2 + 1 else s2);
          s4 = (if length text > 20
                   \<or> isdigit U (remove_char 45 (remove_char 44 (remove_char 46 text)))
                then s3 - 1 else s3)
      in s4)"

definition calculate_data_score :: "unicode \<Rightarrow> cell list \<Rightarrow> int" where
  "calculate_data_score U columns =
     (if columns = [] then 0
      else let column_texts = map (\<lambda>col. u_lower U (str_of col)) columns
           in max 0 (foldl (score_text U) 0 column_texts))"

text \<open>
  \<^verbatim>\<open>_process_data_chunk_fast\<close>. The chunk is the column labels of the data frame
  (the first line of the file) and its rows. The result is the decision the function
  takes: which row gives the column names, and which import it calls.
\<close>

definition option_indicators :: "ustr set" where
  "option_indicators =
     set [ascii ''cp'',
          ascii ''call/put'',
          [36023, 36067, 27402],
          ascii ''strike'',
          [23653, 32004, 20729],
          ascii ''expiry'',
          [21040, 26399]]"

definition future_indicators :: "ustr set" where
  "future_indicators =
     set [ascii ''settlement'',
          [32080, 31639, 20729],
          ascii ''oi'',
          [26410, 24179, 20489],
          [30041, 20489]]"

definition stock_indicators :: "ustr set" where
  "stock_indicators =
     set [ascii ''open'',
          ascii ''high'',
          ascii ''low'',
          ascii ''close'',
          ascii ''volume'',
          ascii ''value'',
          [25104, 20132, 37329, 38989],
          [38283, 30436],
          [26368, 39640],
          [26368, 20302],
          [25910, 30436],
          [25104, 20132, 37327]]"

definition option_score :: "ustr set \<Rightarrow> nat" where
  "option_score column_names = card (column_names \<inter> option_indicators)"

definition future_score :: "ustr set \<Rightarrow> nat" where
  "future_score column_names = card (column_names \<inter> future_indicators)"

definition stock_score :: "ustr set \<Rightarrow> nat" where
  "stock_score column_names = card (column_names \<inter> stock_indicators)"

datatype route =
    ImportOptions
  | ImportFutures
  | ImportStocks
  | ImportStocksWithSymbol symbol_info
  | AskUser

record decision =
  score_first_row :: int
  score_second_row :: int
  data_start_index :: nat
  column_names :: "ustr set"
  route :: route

datatype chunk_error = TypeError

definition lowered_names :: "unicode \<Rightarrow> cell list \<Rightarrow> ustr set" where
  "lowered_names U cols = set (map (\<lambda>col. u_lower U (str_of col)) cols)"

text \<open>Step 4 of the function: the import chosen from the three scores.\<close>

definition choose_route ::
    "unicode \<Rightarrow> ustr set \<Rightarrow> nat \<Rightarrow> symbol_info option \<Rightarrow> cell list \<Rightarrow> cell list list \<Rightarrow> route" where
  "choose_route U names start symbol_info columns rows =
     (if option_score names \<ge> 2 then ImportOptions
      else if future_score names \<ge> 2 \<and> option_score names = 0 then ImportFutures
      else if stock_score names \<ge> 2 \<and> option_score names = 0 \<and> future_score names = 0 then
        (case symbol_info of
           Some info \<Rightarrow> ImportStocksWithSymbol info
         | None \<Rightarrow>
             (if start = 0 then
                (case extract_symbol_from_header U columns of
                   Some info \<Rightarrow> ImportStocksWithSymbol info
                 | None \<Rightarrow> ImportStocks)
              else ImportStocks))
      else
        (case auto_detect_stock_symbol U columns rows of
           Some info \<Rightarrow> ImportStocksWithSymbol info
         | None \<Rightarrow> AskUser))"

definition process_data_chunk_fast ::
    "unicode \<Rightarrow> cell list \<Rightarrow> cell list list \<Rightarrow> chunk_error + decision" where
  "process_data_chunk_fast U columns rows =
     (let original_first_row = (case rows of [] \<Rightarrow> None | r # _ \<Rightarrow> Some r);
          s1 = calculate_data_score U columns;
          s2 = (case original_first_row of
                  None \<Rightarrow> 0
                | Some r \<Rightarrow> if s1 < 3 \<and> r \<noteq> [] then calculate_data_score U r else 0)
      in if s1 \<ge> s2 then
           let names = lowered_names U columns
           in Inr \<lparr>score_first_row = s1, score_second_row = s2, data_start_index = 0,
                   column_names = names,
                   route = choose_route U names 0 None columns rows\<rparr>
         else
           (case original_first_row of
              None \<Rightarrow> Inl TypeError
            | Some r \<Rightarrow>
                let names = lowered_names U r;
                    symbol_info = extract_symbol_from_skipped_rows U columns r
                in Inr \<lparr>score_first_row = s1, score_second_row = s2, data_start_index = 1,
                        column_names = names,
                        route = choose_route U names 1 symbol_info columns (tl rows)\<rparr>))"

text \<open>
  Headers used to run the classifier: the option header strike price, call/put,
  expiry month (U+5C65 U+7D04 U+50F9; U+8CB7 U+8CE3 U+6B0A; U+5230 U+671F U+6708 U+4EFD),
  the stock header, a header with option and stock columns, an option header written
  with capital letters, a futures header with one stock column, and a title line
  \<^verbatim>\<open>2330\<close> U+53F0 U+7A4D U+96FB U+65E5 U+671F (a code, a company name and the word
  date).
\<close>

definition hdr_options :: "cell list" where
  "hdr_options =
     [CStr [23653, 32004, 20729], CStr [36023, 36067, 27402],
      CStr [21040, 26399, 26376, 20221]]"

definition hdr_stocks :: "cell list" where
  "hdr_stocks =
     [CStr (ascii ''open''), CStr (ascii ''high''), CStr (ascii ''low''),
      CStr (ascii ''close''), CStr (ascii ''volume'')]"

definition hdr_mixed :: "cell list" where
  "hdr_mixed =
     [CStr [23653, 32004, 20729], CStr [36023, 36067, 27402],
      CStr (ascii ''open''), CStr (ascii ''close''), CStr (ascii ''volume'')]"

definition hdr_capitals :: "cell list" where
  "hdr_capitals = [CStr (ascii ''Strike''), CStr (ascii ''CP''), CStr (ascii ''Expiry'')]"

definition hdr_futures :: "cell list" where
  "hdr_futures = [CStr (ascii ''settlement''), CStr (ascii ''oi''), CStr (ascii ''volume'')]"

definition title_row :: "cell list" where
  "title_row = [CStr (ascii ''2330 '' @ [21488, 31309, 38651, 32, 26085, 26399])]"

definition weak_title_row :: "cell list" where
  "weak_title_row = [CStr (ascii ''daily market statistics of the exchange'')]"

definition decision_mixed :: decision where
  "decision_mixed =
     \<lparr>score_first_row = 13, score_second_row = 0, data_start_index = 0,
      column_names = lowered_names ascii_tables hdr_mixed, route = ImportOptions\<rparr>"

section \<open>Open-interest aggregation\<close>

text \<open>
  The numbers of the data frame. The open-interest column is \<^verbatim>\<open>int64\<close> (the result of
  \<^verbatim>\<open>astype(int)\<close>): a sum or a difference of the column is taken modulo \<open>2^64\<close> in
  the range from \<open>-2^63\<close> to \<open>2^63 - 1\<close>. A shifted column has a gap at the start of
  each group, which makes it \<^verbatim>\<open>float64\<close>: each value is replaced by the nearest
  number with a 53-bit significand, a tie going to the even significand.
  \<^verbatim>\<open>astype(int)\<close> turns the column back into \<^verbatim>\<open>int64\<close>; the conversion of a value
  outside the range is left open by the array library and gives \<open>-2^63\<close> on x86-64,
  the value used here (it is reached only from an open interest above \<open>2^63 - 513\<close>).
  The fields of a row are written as integers that lie in the \<^verbatim>\<open>int64\<close> range.
\<close>

definition int64 :: "int \<Rightarrow> int" where
  "int64 x = (x + 2 ^ 63) mod 2 ^ 64 - 2 ^ 63"

text \<open>The distance of neighbouring \<^verbatim>\<open>float64\<close> numbers at the magnitude \<open>a\<close>.\<close>

function spacing :: "int \<Rightarrow> int" where
  "spacing a = (if a < 2 ^ 53 then 1 else 2 * spacing (a div 2))"
  by pat_completeness auto
termination
  by (relation "measure nat") auto

declare spacing.simps [simp del]

definition float64 :: "int \<Rightarrow> int" where
  "float64 x =
     (let a = \<bar>x\<bar>;
          u = spacing a;
          q = a div u;
          r = a mod u;
          m = (if 2 * r < u \<or> (2 * r = u \<and> even q) then q * u else (q + 1) * u)
      in sgn x * m)"

definition astype_int :: "int \<Rightarrow> int" where
  "astype_int f = (if - (2 ^ 63) \<le> f \<and> f < 2 ^ 63 then f else - (2 ^ 63))"

text \<open>
  \<^verbatim>\<open>shift(n).fillna(0).astype(int)\<close> at one row: \<open>None\<close> is the gap at the start of
  the group, filled with 0.
\<close>

definition shifted_value :: "int option \<Rightarrow> int" where
  "shifted_value v = (case v of None \<Rightarrow> astype_int 0 | Some a \<Rightarrow> astype_int (float64 a))"

text \<open>
  The data frame operations the two aggregation functions use, on rows that are a
  key and an open interest. A date is a day number, a strike a number, call/put a
  string; tuples and strings are ordered lexicographically, as the sort does.

  \<^verbatim>\<open>groupby(keys, as_index=False).agg({"OI": "sum"})\<close>: one row for every key that
  occurs, in the order of the keys, with the \<^verbatim>\<open>int64\<close> sum of the open interest of
  its rows.
\<close>

definition groupby_sum :: "('k::linorder \<times> int) list \<Rightarrow> ('k \<times> int) list" where
  "groupby_sum xs =
     map (\<lambda>k. (k, int64 (sum_list (map snd (filter (\<lambda>x. fst x = k) xs)))))
       (sort (remdups (map fst xs)))"

record agg_row =
  a_date :: int
  a_strike :: rat
  a_cp :: ustr
  OI :: int
  OI_prev1 :: int
  OI_prev2 :: int
  delta_1 :: int
  delta_2 :: int

text \<open>
  \<^verbatim>\<open>groupby(["Strike", "CP"])["OI"].shift(1)\<close> and \<^verbatim>\<open>shift(2)\<close>, with
  \<^verbatim>\<open>fillna(0).astype(int)\<close>, and the two differences. The rows are read in their
  order; \<open>hist\<close> holds for each (strike, call/put) the open interest of the rows
  already read, the most recent first. A shift beyond the start of the group is a
  gap.
\<close>

fun group_lags ::
    "(rat \<times> ustr \<Rightarrow> int list) \<Rightarrow> ((int \<times> rat \<times> ustr) \<times> int) list \<Rightarrow> agg_row list" where
  "group_lags hist [] = []"
| "group_lags hist (((d, s, c), v) # rest) =
     (let h = hist (s, c);
          prev1 = shifted_value (case h of [] \<Rightarrow> None | a # _ \<Rightarrow> Some a);
          prev2 = shifted_value (case h of a # b # _ \<Rightarrow> Some b | _ \<Rightarrow> None)
      in \<lparr>a_date = d, a_strike = s, a_cp = c, OI = v, OI_prev1 = prev1, OI_prev2 = prev2,
           delta_1 = int64 (v - prev1), delta_2 = int64 (v - prev2)\<rparr>
         # group_lags (hist((s, c) := v # h)) rest)"

text \<open>
  \<^verbatim>\<open>data_loader.py\<close>, \<^verbatim>\<open>load_and_process\<close>, step 5, on the cleaned rows (date,
  call/put, strike, open interest as \<^verbatim>\<open>int64\<close>): group by (date, strike, call/put),
  sort by (strike, call/put, date), shift within (strike, call/put).
\<close>

record oi_row =
  r_date :: int
  r_strike :: rat
  r_cp :: ustr
  r_oi :: int

definition load_and_process_agg :: "oi_row list \<Rightarrow> agg_row list" where
  "load_and_process_agg df2 =
     (let agg = groupby_sum (map (\<lambda>r. ((r_date r, r_strike r, r_cp r), r_oi r)) df2);
          sorted_agg = sort_key (\<lambda>((d, s, c), v). (s, c, d)) agg
      in group_lags (\<lambda>g. []) sorted_agg)"

text \<open>
  \<^verbatim>\<open>txo_db_ui.py\<close>, \<^verbatim>\<open>aggregate_daily_from_df\<close>. A row of the frame has a trade date,
  a strike, call/put, the open interest (missing when the stored value is NULL) and
  the session text. The rows of the regular session (U+4E00 U+822C) are used; when
  there are none, the rows whose session is not one of \<^verbatim>\<open>-\<close>, U+76E4 U+5F8C,
  U+5F8C U+5E02 and the empty string; when there are none either, all rows. The
  open-interest column holds whole numbers, as \<^verbatim>\<open>int64\<close> or, when a value is missing,
  as \<^verbatim>\<open>float64\<close>; \<^verbatim>\<open>fillna(0).astype(int)\<close> makes a missing value 0 and the
  column \<^verbatim>\<open>int64\<close>. The frame is grouped by (date, strike, call/put), sorted by
  (date, strike, call/put), and shifted within (strike, call/put).
\<close>

record txo_row =
  t_date :: int
  t_strike :: rat
  t_cp :: ustr
  t_oi :: "int option"
  t_session :: ustr

definition session_regular :: ustr where
  "session_regular = [19968, 33324]"

definition sessions_excluded :: "ustr list" where
  "sessions_excluded = [[45], [30436, 24460], [24460, 24066], []]"

definition select_session :: "txo_row list \<Rightarrow> txo_row list" where
  "select_session dfc =
     (let gen = filter (\<lambda>r. t_session r = session_regular) dfc;
          gen2 = (if gen = [] then filter (\<lambda>r. t_session r \<notin> set sessions_excluded) dfc
                  else gen);
          gen3 = (if gen2 = [] then dfc else gen2)
      in gen3)"

definition OI_for_calc :: "txo_row \<Rightarrow> int" where
  "OI_for_calc r = (case t_oi r of None \<Rightarrow> astype_int 0 | Some v \<Rightarrow> astype_int v)"

definition aggregate_daily_from_df :: "txo_row list \<Rightarrow> agg_row list" where
  "aggregate_daily_from_df df =
     (if df = [] then []
      else
        let gen = select_session df;
            agg = groupby_sum (map (\<lambda>r. ((t_date r, t_strike r, t_cp r), OI_for_calc r)) gen);
            sorted_agg = sort_key (\<lambda>((d, s, c), v). (d, s, c)) agg
        in group_lags (\<lambda>g. []) sorted_agg)"

text \<open>
  The reference notions for the deltas, on rows that are a key and an open interest:
  the total open interest of a contract on a date, the dates on which the contract
  has a row (its sessions), and the total of the session immediately before a date,
  0 when the contract has no earlier session.
\<close>

definition total_oi :: "((int \<times> rat \<times> ustr) \<times> int) list \<Rightarrow> int \<Rightarrow> rat \<Rightarrow> ustr \<Rightarrow> int" where
  "total_oi xs d s c = sum_list (map snd (filter (\<lambda>x. fst x = (d, s, c)) xs))"

definition sessions_before ::
    "((int \<times> rat \<times> ustr) \<times> int) list \<Rightarrow> rat \<Rightarrow> ustr \<Rightarrow> int \<Rightarrow> int set" where
  "sessions_before xs s c d = {d'. (d', s, c) \<in> fst ` set xs \<and> d' < d}"


definition loader_input :: "oi_row list \<Rightarrow> ((int \<times> rat \<times> ustr) \<times> int) list" where
  "loader_input df2 = map (\<lambda>r. ((r_date r, r_strike r, r_cp r), r_oi r)) df2"

definition txo_input :: "txo_row list \<Rightarrow> ((int \<times> rat \<times> ustr) \<times> int) list" where
  "txo_input df =
     map (\<lambda>r. ((t_date r, t_strike r, t_cp r), OI_for_calc r)) (select_session df)"


text \<open>
  Notions used to state the properties of the shift: the (strike, call/put) group and
  the date of a grouped row, the output row built from a grouped row and the history
  of its group, and the order a list of grouped rows must have for the shift to pair
  a session with the one before it: rows of the same group stand in the order of
  their dates.
\<close>

definition grp :: "(int \<times> rat \<times> ustr) \<times> int \<Rightarrow> rat \<times> ustr" where
  "grp x = (fst (snd (fst x)), snd (snd (fst x)))"

definition dt :: "(int \<times> rat \<times> ustr) \<times> int \<Rightarrow> int" where
  "dt x = fst (fst x)"

definition mk_row :: "(int \<times> rat \<times> ustr) \<times> int \<Rightarrow> int list \<Rightarrow> agg_row" where
  "mk_row x h =
     \<lparr>a_date = dt x, a_strike = fst (grp x), a_cp = snd (grp x), OI = snd x,
      OI_prev1 = shifted_value (case h of [] \<Rightarrow> None | a # _ \<Rightarrow> Some a),
      OI_prev2 = shifted_value (case h of a # b # _ \<Rightarrow> Some b | _ \<Rightarrow> None),
      delta_1 = int64 (snd x - shifted_value (case h of [] \<Rightarrow> None | a # _ \<Rightarrow> Some a)),
      delta_2 = int64 (snd x - shifted_value (case h of a # b # _ \<Rightarrow> Some b | _ \<Rightarrow> None))\<rparr>"

definition group_ordered :: "((int \<times> rat \<times> ustr) \<times> int) list \<Rightarrow> bool" where
  "group_ordered L = sorted_wrt (\<lambda>a b. grp a = grp b \<longrightarrow> dt a < dt b) L"

text \<open>
  Sample rows: two contracts over two days, in an interleaved order, the first
  contract with two rows on the first day.
\<close>

definition sample_df2 :: "oi_row list" where
  "sample_df2 =
     [\<lparr>r_date = 1, r_strike = 17000, r_cp = ascii ''C'', r_oi = 100\<rparr>,
      \<lparr>r_date = 2, r_strike = 17100, r_cp = ascii ''C'', r_oi = 70\<rparr>,
      \<lparr>r_date = 2, r_strike = 17000, r_cp = ascii ''C'', r_oi = 130\<rparr>,
      \<lparr>r_date = 1, r_strike = 17100, r_cp = ascii ''C'', r_oi = 50\<rparr>,
      \<lparr>r_date = 1, r_strike = 17000, r_cp = ascii ''C'', r_oi = 5\<rparr>]"

definition sample_out :: "agg_row list" where
  "sample_out =
     [\<lparr>a_date = 1, a_strike = 17000, a_cp = ascii ''C'', OI = 105, OI_prev1 = 0, OI_prev2 = 0,
        delta_1 = 105, delta_2 = 105\<rparr>,
      \<lparr>a_date = 2, a_strike = 17000, a_cp = ascii ''C'', OI = 130, OI_prev1 = 105, OI_prev2 = 0,
        delta_1 = 25, delta_2 = 130\<rparr>,
      \<lparr>a_date = 1, a_strike = 17100, a_cp = ascii ''C'', OI = 50, OI_prev1 = 0, OI_prev2 = 0,
        delta_1 = 50, delta_2 = 50\<rparr>,
      \<lparr>a_date = 2, a_strike = 17100, a_cp = ascii ''C'', OI = 70, OI_prev1 = 50, OI_prev2 = 0,
        delta_1 = 20, delta_2 = 70\<rparr>]"







definition row_key :: "agg_row \<Rightarrow> int \<times> rat \<times> ustr" where
  "row_key r = (a_date r, a_strike r, a_cp r)"

section \<open>Anomaly detection for a date\<close>

text \<open>
  \<^verbatim>\<open>txo_db_ui.py\<close>, \<^verbatim>\<open>detect_anomalies_for_date\<close>, the loop over the rows of the day
  and the ranking of the anomalies (the top lists of increases and decreases and the
  largest call and put of the day are not modelled). \<open>all_agg\<close> is the whole aggregate;
  the mean is a floating-point number in the source and an exact real here.

  The rows of the same (strike, call/put) with an earlier date, the latest first,
  cut to 5: \<^verbatim>\<open>sort_values(date, ascending=False).head(5)\<close>.
\<close>

definition hist_recent :: "agg_row list \<Rightarrow> agg_row \<Rightarrow> agg_row list" where
  "hist_recent all_agg r =
     (let hist = filter (\<lambda>h. a_strike h = a_strike r \<and> a_cp h = a_cp r) all_agg;
          earlier = filter (\<lambda>h. a_date h < a_date r) hist
      in take 5 (sort_key (\<lambda>h. - a_date h) earlier))"

definition mean_recent :: "agg_row list \<Rightarrow> agg_row \<Rightarrow> real" where
  "mean_recent all_agg r =
     (let recent = hist_recent all_agg r
      in if recent = [] then 0
         else real_of_int (sum_list (map (\<lambda>h. \<bar>delta_1 h\<bar>) recent)) / real (length recent))"

definition rel_flag :: "agg_row list \<Rightarrow> agg_row \<Rightarrow> bool" where
  "rel_flag all_agg r =
     (let absd = \<bar>delta_1 r\<bar>; m = mean_recent all_agg r
      in m > 0 \<and> real_of_int absd > m * 3)"

text \<open>
  The labels of an anomaly without a level: U+76F8 U+5C0D U+7570 U+5E38 (relative
  anomaly), U+9060 U+7AEF U+5927 U+55AE (remote large order), U+7570 U+5E38 (anomaly).
\<close>

definition label_relative :: ustr where
  "label_relative = [30456, 23565, 30064, 24120]"

definition label_remote :: ustr where
  "label_remote = [36960, 31471, 22823, 21934]"

definition label_anomaly :: ustr where
  "label_anomaly = [30064, 24120]"

record anomaly =
  an_strike :: int
  an_cp :: ustr
  an_delta :: int
  an_abs :: int
  an_level :: ustr
  an_outside :: bool

text \<open>\<^verbatim>\<open>int(x)\<close> of a number: the fraction is cut off.\<close>

definition py_int :: "rat \<Rightarrow> int" where
  "py_int q = (if q \<ge> 0 then \<lfloor>q\<rfloor> else \<lceil>q\<rceil>)"

definition anomaly_of_row ::
    "agg_row list \<Rightarrow> int option \<Rightarrow> int \<Rightarrow> agg_row \<Rightarrow> anomaly option" where
  "anomaly_of_row all_agg atm_strike strike_window r =
     (let strike = a_strike r;
          cp = a_cp r;
          delta = delta_1 r;
          absd = \<bar>delta\<bar>;
          level = anomaly_level delta;
          rel = rel_flag all_agg r;
          outside_flag =
            (case atm_strike of
               None \<Rightarrow> False
             | Some atm \<Rightarrow> \<bar>strike - of_int atm\<bar> > of_int strike_window \<and> absd \<ge> 400)
      in if level \<noteq> None \<or> rel \<or> outside_flag
         then Some \<lparr>an_strike = py_int strike, an_cp = cp, an_delta = delta, an_abs = absd,
                    an_level = (case level of
                                  Some l \<Rightarrow> l
                                | None \<Rightarrow> if rel then label_relative
                                          else if outside_flag then label_remote
                                          else label_anomaly),
                    an_outside = outside_flag\<rparr>
         else None)"

definition detect_anomalies ::
    "agg_row list \<Rightarrow> agg_row list \<Rightarrow> int option \<Rightarrow> int \<Rightarrow> anomaly list" where
  "detect_anomalies agg_day all_agg atm_strike strike_window =
     take 10 (sort_key (\<lambda>a. - an_abs a)
                (List.map_filter (anomaly_of_row all_agg atm_strike strike_window) agg_day))"

text \<open>
  The rows the flag compares with, as a predicate, and a frame in which a contract
  has no open interest on its first day and 500 on the second.
\<close>

definition earlier_session :: "agg_row \<Rightarrow> agg_row \<Rightarrow> bool" where
  "earlier_session r h = (a_strike h = a_strike r \<and> a_cp h = a_cp r \<and> a_date h < a_date r)"

definition flat_then_500 :: "txo_row list" where
  "flat_then_500 =
     [\<lparr>t_date = 1, t_strike = 17000, t_cp = ascii ''C'', t_oi = Some 0,
        t_session = session_regular\<rparr>,
      \<lparr>t_date = 2, t_strike = 17000, t_cp = ascii ''C'', t_oi = Some 500,
        t_session = session_regular\<rparr>]"

definition flat_day1 :: agg_row where
  "flat_day1 =
     \<lparr>a_date = 1, a_strike = 17000, a_cp = ascii ''C'', OI = 0, OI_prev1 = 0, OI_prev2 = 0,
      delta_1 = 0, delta_2 = 0\<rparr>"

definition flat_day2 :: agg_row where
  "flat_day2 =
     \<lparr>a_date = 2, a_strike = 17000, a_cp = ascii ''C'', OI = 500, OI_prev1 = 0, OI_prev2 = 0,
      delta_1 = 500, delta_2 = 500\<rparr>"

definition rising_day1 :: agg_row where
  "rising_day1 =
     \<lparr>a_date = 1, a_strike = 17000, a_cp = ascii ''C'', OI = 100, OI_prev1 = 0, OI_prev2 = 0,
      delta_1 = 100, delta_2 = 100\<rparr>"

definition rising_day2 :: agg_row where
  "rising_day2 =
     \<lparr>a_date = 2, a_strike = 17000, a_cp = ascii ''C'', OI = 450, OI_prev1 = 100, OI_prev2 = 0,
      delta_1 = 350, delta_2 = 450\<rparr>"

section \<open>Persistence\<close>

text \<open>
  The tables are lists of rows in insertion order; the surrogate key \<^verbatim>\<open>id\<close> and the
  time stamps \<^verbatim>\<open>created_at\<close> and \<^verbatim>\<open>created_time\<close>, which the engine assigns, are
  left out. A value bound to a statement or stored in a column is NULL, an integer, a
  real or a text (a \<^verbatim>\<open>float\<close> is an exact rational here; a NaN is bound as NULL).

  The database engine is not part of the repository. Two of its conversions are
  parameters of the model: the number that a text which looks like a number is
  converted to (\<open>None\<close> when the text is no well-formed integer or real literal), and
  the text that a number is converted to.
\<close>

datatype sqlval = Null | IntV int | RealV rat | TextV ustr

record engine =
  numeric_literal :: "ustr \<Rightarrow> sqlval option"
  number_text :: "sqlval \<Rightarrow> ustr"

text \<open>
  The affinity of a column, from its declared type: \<^verbatim>\<open>TEXT\<close>; \<^verbatim>\<open>INTEGER\<close>; \<^verbatim>\<open>REAL\<close>;
  \<^verbatim>\<open>DATE\<close>, which gives the affinity NUMERIC. A value is converted when it is stored:
  in a TEXT column a number becomes its text; in an INTEGER or NUMERIC column a text
  that looks like a number becomes that number, and a real that is a whole number
  strictly between \<open>-2^63\<close> and \<open>2^63 - 1\<close> becomes an integer; in a REAL column a
  text that looks like a number becomes that number, and an integer becomes the
  nearest \<^verbatim>\<open>float64\<close>.
\<close>

datatype affinity = TextAff | NumericAff | IntegerAff | RealAff

definition whole_number :: "sqlval \<Rightarrow> sqlval" where
  "whole_number v =
     (case v of
        RealV r \<Rightarrow>
          if r = of_int \<lfloor>r\<rfloor> \<and> - (2 ^ 63) < \<lfloor>r\<rfloor> \<and> \<lfloor>r\<rfloor> < 2 ^ 63 - 1 then IntV \<lfloor>r\<rfloor>
          else RealV r
      | _ \<Rightarrow> v)"

definition real_number :: "sqlval \<Rightarrow> sqlval" where
  "real_number v = (case v of IntV n \<Rightarrow> RealV (of_int (float64 n)) | _ \<Rightarrow> v)"

definition apply_affinity :: "engine \<Rightarrow> affinity \<Rightarrow> sqlval \<Rightarrow> sqlval" where
  "apply_affinity E a v =
     (case a of
        TextAff \<Rightarrow>
          (case v of
             IntV n \<Rightarrow> TextV (number_text E v)
           | RealV r \<Rightarrow> TextV (number_text E v)
           | _ \<Rightarrow> v)
      | RealAff \<Rightarrow>
          (case v of
             TextV t \<Rightarrow> (case numeric_literal E t of Some n \<Rightarrow> real_number n | None \<Rightarrow> v)
           | _ \<Rightarrow> real_number v)
      | _ \<Rightarrow>
          (case v of
             TextV t \<Rightarrow> (case numeric_literal E t of Some n \<Rightarrow> whole_number n | None \<Rightarrow> v)
           | _ \<Rightarrow> whole_number v))"

text \<open>
  Binding a Python \<^verbatim>\<open>int\<close> outside the 64-bit range raises \<^verbatim>\<open>OverflowError\<close>.
\<close>

definition bindable :: "sqlval \<Rightarrow> bool" where
  "bindable v = (case v of IntV n \<Rightarrow> - (2 ^ 63) \<le> n \<and> n < 2 ^ 63 | _ \<Rightarrow> True)"

text \<open>
  Equality of two stored values, as a \<^verbatim>\<open>UNIQUE\<close> constraint and a comparison see it:
  NULL equals nothing, an integer and a real are compared as numbers, a number never
  equals a text.
\<close>

definition sql_eq :: "sqlval \<Rightarrow> sqlval \<Rightarrow> bool" where
  "sql_eq a b =
     (case (a, b) of
        (IntV x, IntV y) \<Rightarrow> x = y
      | (IntV x, RealV y) \<Rightarrow> of_int x = y
      | (RealV x, IntV y) \<Rightarrow> x = of_int y
      | (RealV x, RealV y) \<Rightarrow> x = y
      | (TextV x, TextV y) \<Rightarrow> x = y
      | _ \<Rightarrow> False)"

text \<open>
  The statements that open a transaction and change the safety level. A transaction
  cannot be opened inside a transaction, and the engine refuses
  \<^verbatim>\<open>PRAGMA synchronous\<close> inside a transaction (\<^verbatim>\<open>Safety level may not be changed
  inside a transaction\<close>); both raise \<^verbatim>\<open>OperationalError\<close>. The argument says
  whether the connection is inside a transaction, the result whether it is afterwards.
\<close>

datatype sql_error = OperationalError | KeyError | OverflowError | IntegrityError

definition begin_transaction :: "bool \<Rightarrow> sql_error + bool" where
  "begin_transaction in_transaction =
     (if in_transaction then Inl OperationalError else Inr True)"

definition pragma_synchronous :: "bool \<Rightarrow> sql_error + bool" where
  "pragma_synchronous in_transaction =
     (if in_transaction then Inl OperationalError else Inr in_transaction)"

subsection \<open>The CSV importer: \<^verbatim>\<open>options_raw\<close>\<close>

record option_row =
  product :: sqlval
  trade_date :: sqlval
  expiry :: sqlval
  strike :: sqlval
  cp :: sqlval
  volume :: sqlval
  oi :: sqlval
  raw_oi_text :: sqlval
  session :: sqlval
  load_file :: sqlval

text \<open>
  The columns of the table: product \<^verbatim>\<open>TEXT\<close>, trade_date \<^verbatim>\<open>DATE\<close>, expiry \<^verbatim>\<open>TEXT\<close>,
  strike \<^verbatim>\<open>REAL\<close>, cp \<^verbatim>\<open>TEXT\<close>, volume and oi \<^verbatim>\<open>INTEGER\<close>, the others \<^verbatim>\<open>TEXT\<close>.
\<close>

definition store_option :: "engine \<Rightarrow> option_row \<Rightarrow> option_row" where
  "store_option E t =
     \<lparr>product = apply_affinity E TextAff (product t),
      trade_date = apply_affinity E NumericAff (trade_date t),
      expiry = apply_affinity E TextAff (expiry t),
      strike = apply_affinity E RealAff (strike t),
      cp = apply_affinity E TextAff (cp t),
      volume = apply_affinity E IntegerAff (volume t),
      oi = apply_affinity E IntegerAff (oi t),
      raw_oi_text = apply_affinity E TextAff (raw_oi_text t),
      session = apply_affinity E TextAff (session t),
      load_file = apply_affinity E TextAff (load_file t)\<rparr>"

definition option_bindable :: "option_row \<Rightarrow> bool" where
  "option_bindable t =
     list_all bindable
       [product t, trade_date t, expiry t, strike t, cp t, volume t, oi t, raw_oi_text t,
        session t, load_file t]"

text \<open>
  The constraints of the table, on a row as it is stored: \<^verbatim>\<open>NOT NULL\<close> on product,
  trade_date, expiry, strike and cp; \<^verbatim>\<open>CHECK (cp IN ('C', 'P'))\<close>;
  \<^verbatim>\<open>CHECK (session IN ('regular', 'after_hours'))\<close>, which a NULL session passes; and
  \<^verbatim>\<open>UNIQUE(trade_date, product, expiry, strike, cp, session)\<close>, for which two rows
  conflict when they are equal on each of the six columns.
\<close>

definition violates_row :: "option_row \<Rightarrow> bool" where
  "violates_row t =
     (product t = Null \<or> trade_date t = Null \<or> expiry t = Null \<or> strike t = Null
      \<or> cp t = Null
      \<or> (cp t \<noteq> TextV (ascii ''C'') \<and> cp t \<noteq> TextV (ascii ''P''))
      \<or> (session t \<noteq> Null \<and> session t \<noteq> TextV (ascii ''regular'')
            \<and> session t \<noteq> TextV (ascii ''after_hours'')))"

definition unique_key :: "option_row \<Rightarrow> sqlval list" where
  "unique_key t = [trade_date t, product t, expiry t, strike t, cp t, session t]"

definition conflicts :: "option_row list \<Rightarrow> option_row \<Rightarrow> bool" where
  "conflicts T t = list_ex (\<lambda>r. list_all2 sql_eq (unique_key r) (unique_key t)) T"

text \<open>
  \<^verbatim>\<open>INSERT OR IGNORE\<close> of one row: the row is converted to the column types; a row
  that violates a constraint is skipped.
\<close>

definition insert_or_ignore :: "engine \<Rightarrow> option_row list \<Rightarrow> option_row \<Rightarrow> option_row list" where
  "insert_or_ignore E T t =
     (let s = store_option E t
      in if violates_row s \<or> conflicts T s then T else T @ [s])"

text \<open>
  A record passed to \<^verbatim>\<open>batch_insert_options_fast\<close> is a dictionary; a field is
  \<open>None\<close> when the key is missing. The keys product, trade_date, expiry, strike and
  cp are read with \<^verbatim>\<open>opt[key]\<close>, which raises \<^verbatim>\<open>KeyError\<close> when the key is
  missing; the others with \<^verbatim>\<open>opt.get\<close> and the defaults 0 for volume, \<^verbatim>\<open>regular\<close>
  for session and None otherwise.
\<close>

record opt_dict =
  d_product :: "sqlval option"
  d_trade_date :: "sqlval option"
  d_expiry :: "sqlval option"
  d_strike :: "sqlval option"
  d_cp :: "sqlval option"
  d_volume :: "sqlval option"
  d_oi :: "sqlval option"
  d_raw_oi_text :: "sqlval option"
  d_session :: "sqlval option"
  d_load_file :: "sqlval option"

definition get_default :: "sqlval option \<Rightarrow> sqlval \<Rightarrow> sqlval" where
  "get_default field dflt = (case field of None \<Rightarrow> dflt | Some v \<Rightarrow> v)"

definition options_tuple :: "opt_dict \<Rightarrow> option_row option" where
  "options_tuple opt =
     (case (d_product opt, d_trade_date opt, d_expiry opt, d_strike opt, d_cp opt) of
        (Some p, Some t, Some e, Some s, Some c) \<Rightarrow>
          Some \<lparr>product = p, trade_date = t, expiry = e, strike = s, cp = c,
                 volume = get_default (d_volume opt) (IntV 0),
                 oi = get_default (d_oi opt) Null,
                 raw_oi_text = get_default (d_raw_oi_text opt) Null,
                 session = get_default (d_session opt) (TextV (ascii ''regular'')),
                 load_file = get_default (d_load_file opt) Null\<rparr>
      | _ \<Rightarrow> None)"

text \<open>
  \<^verbatim>\<open>batch_insert_options_fast\<close>: the new table and the returned count. An empty list
  returns 0. Otherwise the function opens a connection, which is outside a
  transaction, executes \<^verbatim>\<open>BEGIN TRANSACTION\<close> and then \<^verbatim>\<open>PRAGMA synchronous = OFF\<close>,
  builds the tuples, executes the inserts and commits. Every exception is caught:
  the function then returns 0, and what the connection has not committed is lost.
  The three other \<^verbatim>\<open>PRAGMA\<close> statements of the function change no row and raise
  nothing.
\<close>

definition batch_insert_options_fast ::
    "engine \<Rightarrow> option_row list \<Rightarrow> opt_dict list \<Rightarrow> option_row list \<times> nat" where
  "batch_insert_options_fast E T options_list =
     (if options_list = [] then (T, 0)
      else
        case begin_transaction False of
          Inl e \<Rightarrow> (T, 0)
        | Inr in_transaction \<Rightarrow>
            (case pragma_synchronous in_transaction of
               Inl e \<Rightarrow> (T, 0)
             | Inr _ \<Rightarrow>
                 (case those (map options_tuple options_list) of
                    None \<Rightarrow> (T, 0)
                  | Some data_tuples \<Rightarrow>
                      if list_all option_bindable data_tuples
                      then let T' = foldl (insert_or_ignore E) T data_tuples
                           in (T', length T' - length T)
                      else (T, 0))))"

text \<open>
  \<^verbatim>\<open>_import_as_options\<close>: a row of the chunk gives a record by
  \<^verbatim>\<open>row.get(column, default)\<close>; a field of the row is \<open>None\<close> when the chunk has no
  such column. The default of trade_date is the date of the day of the import, a
  parameter here. The record has no session key.
\<close>

record chunk_row =
  c_product :: "sqlval option"
  c_trade_date :: "sqlval option"
  c_expiry :: "sqlval option"
  c_strike :: "sqlval option"
  c_cp :: "sqlval option"
  c_volume :: "sqlval option"
  c_oi :: "sqlval option"
  c_raw_oi_text :: "sqlval option"

definition option_record :: "ustr \<Rightarrow> ustr \<Rightarrow> chunk_row \<Rightarrow> opt_dict" where
  "option_record today filename row =
     \<lparr>d_product = Some (get_default (c_product row) (TextV (ascii ''TXO''))),
      d_trade_date = Some (get_default (c_trade_date row) (TextV today)),
      d_expiry = Some (get_default (c_expiry row) (TextV [])),
      d_strike = Some (get_default (c_strike row) (IntV 0)),
      d_cp = Some (get_default (c_cp row) (TextV (ascii ''C''))),
      d_volume = Some (get_default (c_volume row) (IntV 0)),
      d_oi = Some (get_default (c_oi row) Null),
      d_raw_oi_text = Some (get_default (c_raw_oi_text row) (TextV [])),
      d_session = None,
      d_load_file = Some (TextV filename)\<rparr>"

definition import_as_options ::
    "engine \<Rightarrow> ustr \<Rightarrow> ustr \<Rightarrow> option_row list \<Rightarrow> chunk_row list \<Rightarrow> option_row list \<times> nat" where
  "import_as_options E today filename T chunk =
     batch_insert_options_fast E T (map (option_record today filename) chunk)"

subsection \<open>The downloader: \<^verbatim>\<open>txo_options\<close>\<close>

text \<open>
  A row of \<^verbatim>\<open>txo_options\<close>: the columns of the unique key and of the \<^verbatim>\<open>NOT NULL\<close>
  constraints by name, the fifteen price, volume and open-interest columns as a list
  in the order of the table (a column that the frame does not have is NULL). The
  columns are trade_date \<^verbatim>\<open>DATE\<close>, contract_type and expiry_date \<^verbatim>\<open>TEXT\<close>,
  strike_price \<^verbatim>\<open>INTEGER\<close>, option_type \<^verbatim>\<open>TEXT\<close>, seven \<^verbatim>\<open>REAL\<close> price columns, four
  \<^verbatim>\<open>INTEGER\<close> volume and open-interest columns, and four \<^verbatim>\<open>REAL\<close> price columns. The
  table has \<^verbatim>\<open>UNIQUE(trade_date, expiry_date, strike_price, option_type)\<close> and
  \<^verbatim>\<open>NOT NULL\<close> on these four columns and on contract_type.
\<close>

record txo_option =
  o_trade_date :: sqlval
  o_contract_type :: sqlval
  o_expiry_date :: sqlval
  o_strike_price :: sqlval
  o_option_type :: sqlval
  o_values :: "sqlval list"

definition value_affinities :: "affinity list" where
  "value_affinities =
     [RealAff, RealAff, RealAff, RealAff, RealAff, RealAff, RealAff,
      IntegerAff, IntegerAff, IntegerAff, IntegerAff,
      RealAff, RealAff, RealAff, RealAff]"

definition store_txo :: "engine \<Rightarrow> txo_option \<Rightarrow> txo_option" where
  "store_txo E t =
     \<lparr>o_trade_date = apply_affinity E NumericAff (o_trade_date t),
      o_contract_type = apply_affinity E TextAff (o_contract_type t),
      o_expiry_date = apply_affinity E TextAff (o_expiry_date t),
      o_strike_price = apply_affinity E IntegerAff (o_strike_price t),
      o_option_type = apply_affinity E TextAff (o_option_type t),
      o_values = map (\<lambda>(a, v). apply_affinity E a v) (zip value_affinities (o_values t))\<rparr>"



definition txo_key :: "txo_option \<Rightarrow> sqlval list" where
  "txo_key t = [o_trade_date t, o_expiry_date t, o_strike_price t, o_option_type t]"

definition same_key :: "txo_option \<Rightarrow> txo_option \<Rightarrow> bool" where
  "same_key r t = list_all2 sql_eq (txo_key r) (txo_key t)"






text \<open>
  Sample values: an engine for values that need no conversion between text and
  number (texts that are no numbers, text columns that hold texts); a row of a CSV
  chunk; two rows of the importer's table that differ in the way the strike is
  written; and for the downloader the
  fifteen value columns with an opening price and an open interest, two quotes of one
  contract on one day with different values, a quote of the next day, and the first
  quote with its strike given as a \<^verbatim>\<open>float\<close>.
\<close>

definition text_engine :: engine where
  "text_engine = \<lparr>numeric_literal = (\<lambda>t. None), number_text = (\<lambda>v. [])\<rparr>"

definition stored_opt :: chunk_row where
  "stored_opt =
     \<lparr>c_product = Some (TextV (ascii ''TXO'')), c_trade_date = Some (TextV (ascii ''2024-01-02'')),
      c_expiry = Some (TextV (ascii ''202401'')), c_strike = Some (RealV 17000),
      c_cp = Some (TextV (ascii ''C'')), c_volume = Some (IntV 12), c_oi = Some (IntV 100),
      c_raw_oi_text = Some (TextV (ascii ''100''))\<rparr>"

definition real_strike_row :: option_row where
  "real_strike_row =
     \<lparr>product = TextV (ascii ''TXO''), trade_date = TextV (ascii ''2024-01-02''),
      expiry = TextV (ascii ''202401''), strike = RealV 17000, cp = TextV (ascii ''C''),
      volume = IntV 12, oi = IntV 100, raw_oi_text = TextV (ascii ''100''),
      session = TextV (ascii ''regular''), load_file = TextV (ascii ''a.csv'')\<rparr>"

definition int_strike_row :: option_row where
  "int_strike_row =
     \<lparr>product = TextV (ascii ''TXO''), trade_date = TextV (ascii ''2024-01-02''),
      expiry = TextV (ascii ''202401''), strike = IntV 17000, cp = TextV (ascii ''C''),
      volume = IntV 15, oi = IntV 90, raw_oi_text = TextV (ascii ''90''),
      session = TextV (ascii ''regular''), load_file = TextV (ascii ''b.csv'')\<rparr>"

definition quote_values :: "rat \<Rightarrow> int \<Rightarrow> sqlval list" where
  "quote_values opening interest =
     [RealV opening, Null, Null, Null, Null, Null, Null,
      Null, Null, Null, IntV interest,
      Null, Null, Null, Null]"

definition old_quote :: txo_option where
  "old_quote =
     \<lparr>o_trade_date = TextV (ascii ''2024-01-02''), o_contract_type = TextV (ascii ''TXO''),
      o_expiry_date = TextV (ascii ''202401''), o_strike_price = IntV 17000,
      o_option_type = TextV (ascii ''Call''), o_values = quote_values 5 100\<rparr>"



definition float_quote :: txo_option where
  "float_quote =
     \<lparr>o_trade_date = TextV (ascii ''2024-01-02''), o_contract_type = TextV (ascii ''TXO''),
      o_expiry_date = TextV (ascii ''202401''), o_strike_price = RealV 17000,
      o_option_type = TextV (ascii ''Call''), o_values = quote_values 5 100\<rparr>"
section \<open>Evaluating the string functions\<close>

lemma split_loop_Nil: "split_loop sep cur [] = [rev cur]"
  by (subst split_loop.simps) simp

lemma split_loop_Cons:
  "split_loop sep cur (c # cs) =
     (if sep \<noteq> [] \<and> starts_with sep (c # cs)
      then rev cur # split_loop sep [] (drop (length sep) (c # cs))
      else split_loop sep (c # cur) cs)"
  by (subst split_loop.simps) simp

lemmas search_eval =
  extract_symbol_from_header_def symbol_search_def match_at_def match_code_def
  match_letters_def match_spaces_def match_name_def counts_down_def run_length_def
  is_ascii_letter_def is_cjk_def ascii_tables_def ascii_isspace_def ascii_isdigit_def
  ascii_def is_valid_tw_stock_symbol_def symbol_format_def at_end_def strip_def Let_def

section \<open>Properties of the anomaly levels\<close>

lemmas level_defs =
  detect_alert_level_def anomaly_level_def ANOM_THRESH_big_order_def
  ANOM_THRESH_major_def ANOM_THRESH_extreme_def

text \<open>
  C2. For every integer open-interest delta, both level functions give no level below
  400, the large-order label from 400 to 799, a major label from 800 to 1199 and the
  extreme label from 1200 on, in absolute value. A delta of exactly 1200 is extreme
  and 799 is a large order, not major.
\<close>

theorem anomaly_thresholds:
  "detect_alert_level d =
     (if \<bar>d\<bar> < 400 then None
      else if \<bar>d\<bar> < 800 then Some label_big_order
      else if \<bar>d\<bar> < 1200 then Some label_major_layout
      else Some label_extreme)
   \<and> anomaly_level d =
     (if \<bar>d\<bar> < 400 then None
      else if \<bar>d\<bar> < 800 then Some label_big_order
      else if \<bar>d\<bar> < 1200 then Some label_major
      else Some label_extreme)
   \<and> detect_alert_level 1200 = Some label_extreme
   \<and> anomaly_level 1200 = Some label_extreme
   \<and> detect_alert_level 799 = Some label_big_order
   \<and> anomaly_level 799 = Some label_big_order
   \<and> label_big_order \<noteq> label_major \<and> label_big_order \<noteq> label_major_layout
   \<and> label_extreme \<noteq> label_major \<and> label_extreme \<noteq> label_major_layout
   \<and> label_extreme \<noteq> label_big_order"
  by (simp add: level_defs Let_def label_extreme_def label_major_def
        label_major_layout_def label_big_order_def)

section \<open>Properties of the drawdown\<close>

lemma drawdown_loop_drawdowns:
  "0 < peak \<Longrightarrow> drawdown_loop peak m es = Inr (Max (set (m # drawdowns peak es)))"
proof (induction es arbitrary: peak m)
  case Nil
  then show ?case by simp
next
  case (Cons e es)
  let ?p = "max peak e"
  let ?dd = "(?p - e) / ?p"
  have pp: "0 < ?p" using Cons.prems by simp
  have pe: "(if e > peak then e else peak) = ?p" by (simp add: max_def)
  have "drawdown_loop peak m (e # es) = drawdown_loop ?p (if ?dd > m then ?dd else m) es"
    using pp unfolding drawdown_loop.simps pe Let_def by simp
  also have "\<dots> = Inr (Max (set ((if ?dd > m then ?dd else m) # drawdowns ?p es)))"
    by (rule Cons.IH[OF pp])
  also have "Max (set ((if ?dd > m then ?dd else m) # drawdowns ?p es))
             = Max (set (m # drawdowns peak (e # es)))"
  proof (cases "drawdowns ?p es = []")
    case True
    then show ?thesis by (simp add: max_def)
  next
    case False
    then have ne: "set (drawdowns ?p es) \<noteq> {}" by simp
    have "Max (insert (if ?dd > m then ?dd else m) (set (drawdowns ?p es)))
          = max (if ?dd > m then ?dd else m) (Max (set (drawdowns ?p es)))"
      using ne by simp
    moreover have "Max (insert m (insert ?dd (set (drawdowns ?p es))))
          = max m (max ?dd (Max (set (drawdowns ?p es))))"
      using ne by simp
    ultimately show ?thesis by (simp add: max_def)
  qed
  finally show ?case .
qed

lemma length_drawdowns: "length (drawdowns peak es) = length es"
  by (induction es arbitrary: peak) simp_all

lemma drawdowns_nth:
  "i < length es \<Longrightarrow>
   drawdowns peak es ! i =
     (max peak (Max (set (take (Suc i) es))) - es ! i) / max peak (Max (set (take (Suc i) es)))"
proof (induction es arbitrary: peak i)
  case Nil
  then show ?case by simp
next
  case (Cons e es)
  show ?case
  proof (cases i)
    case 0
    then show ?thesis by simp
  next
    case (Suc j)
    then have j: "j < length es" using Cons.prems by simp
    then have "set (take (Suc j) es) \<noteq> {}" by (cases es) auto
    then have "Max (insert e (set (take (Suc j) es))) = max e (Max (set (take (Suc j) es)))"
      by simp
    then show ?thesis using Cons.IH[OF j, of "max peak e"] Suc by (simp add: max.assoc)
  qed
qed

lemma calculate_max_drawdown_spec:
  assumes "curve \<noteq> []" "0 < hd curve"
  shows "calculate_max_drawdown curve = Inr (Max (drawdown_at curve ` {..<length curve}))"
    and "0 \<le> Max (drawdown_at curve ` {..<length curve})"
proof -
  obtain e0 rest where c: "curve = e0 # rest" using assms(1) by (cases curve) auto
  have pos: "0 < e0" using assms(2) c by simp
  have eq: "drawdowns e0 curve ! i = drawdown_at curve i" if "i < length curve" for i
  proof -
    have "e0 \<le> Max (set (take (Suc i) curve))" using c by simp
    then have "max e0 (Max (set (take (Suc i) curve))) = running_peak curve i"
      by (simp add: running_peak_def max_def)
    then show ?thesis using drawdowns_nth[OF that, of e0] by (simp add: drawdown_at_def)
  qed
  have "set (drawdowns e0 curve) = (\<lambda>i. drawdowns e0 curve ! i) ` {..<length curve}"
    using length_drawdowns[of e0 curve] by (auto simp: set_conv_nth simp del: lessThan_Suc)
  also have "\<dots> = drawdown_at curve ` {..<length curve}"
    by (rule image_cong) (use eq in auto)
  finally have S: "set (drawdowns e0 curve) = drawdown_at curve ` {..<length curve}" .
  have d0: "drawdown_at curve 0 = 0"
    using c pos by (simp add: drawdown_at_def running_peak_def)
  have "0 < length curve" using c by simp
  then have ne: "0 \<in> drawdown_at curve ` {..<length curve}"
    using d0 by (metis imageI lessThan_iff)
  have "calculate_max_drawdown curve = drawdown_loop e0 0 curve"
    by (simp add: calculate_max_drawdown_def c)
  also have "\<dots> = Inr (Max (insert 0 (set (drawdowns e0 curve))))"
    using drawdown_loop_drawdowns[OF pos, of 0 curve] by simp
  also have "insert 0 (set (drawdowns e0 curve)) = drawdown_at curve ` {..<length curve}"
    using ne S by auto
  finally show "calculate_max_drawdown curve = Inr (Max (drawdown_at curve ` {..<length curve}))" .
  have "finite (drawdown_at curve ` {..<length curve})" by simp
  then show "0 \<le> Max (drawdown_at curve ` {..<length curve})"
    using ne by (rule Max_ge)
qed

text \<open>
  C9. Whenever the performance calculator returns a result, its equity curve starts
  at the initial equity, and the reported maximum drawdown is the maximum over the
  positions of the curve of (running peak - equity) / running peak, the running peak
  at a position being the largest equity at or before it; it is never negative.
\<close>

theorem max_drawdown_running_peak:
  assumes "calculate_performance commission trades = Inr (Some p)"
  shows "max_drawdown p = Max (drawdown_at (equity_curve p) ` {..<length (equity_curve p)})
         \<and> 0 \<le> max_drawdown p
         \<and> hd (equity_curve p) = 100000
         \<and> calculate_max_drawdown (equity_curve p) = Inr (max_drawdown p)"
proof -
  let ?curve = "100000 # map snd (pair_trades commission 100000 trades)"
  have spec: "calculate_max_drawdown ?curve = Inr (Max (drawdown_at ?curve ` {..<length ?curve}))"
    by (rule calculate_max_drawdown_spec(1)) simp_all
  have nonneg: "0 \<le> Max (drawdown_at ?curve ` {..<length ?curve})"
    by (rule calculate_max_drawdown_spec(2)) simp_all
  from assms have p: "equity_curve p = ?curve"
      "max_drawdown p = Max (drawdown_at ?curve ` {..<length ?curve})"
    unfolding calculate_performance_def Let_def spec
    by (auto split: if_splits)
  show ?thesis using p spec nonneg by simp
qed

lemma calculate_performance_total: "calculate_performance commission trades \<noteq> Inl e"
proof -
  let ?curve = "100000 # map snd (pair_trades commission 100000 trades)"
  have spec: "calculate_max_drawdown ?curve = Inr (Max (drawdown_at ?curve ` {..<length ?curve}))"
    by (rule calculate_max_drawdown_spec(1)) simp_all
  show ?thesis
    unfolding calculate_performance_def Let_def spec by simp
qed

lemma sample_records:
  "pair_trades 0 100000 sample_trades = [(-10, 99990), (30, 100020)]"
  by (simp add: sample_trades_def net_pnl_def ascii_def)

lemma sample_drawdown: "calculate_max_drawdown [100000, 99990, 100020] = Inr (1 / 10000)"
  by (simp add: calculate_max_drawdown_def)

lemma sample_performance:
  "calculate_performance 0 sample_trades = Inr (Some sample_result)"
proof -
  have "length sample_trades = 4" by (simp add: sample_trades_def)
  then show ?thesis
    unfolding calculate_performance_def Let_def sample_records
    by (simp add: sample_drawdown sample_result_def)
qed

theorem max_drawdown_running_peak_witness:
  "calculate_performance 0 sample_trades = Inr (Some sample_result)
   \<and> equity_curve sample_result = [100000, 99990, 100020]
   \<and> max_drawdown sample_result = 1 / 10000
   \<and> Max (drawdown_at [100000, 99990, 100020] ` {..<length [100000, 99990, 100020 :: real]})
       = 1 / 10000"
proof -
  have c: "equity_curve sample_result = [100000, 99990, 100020]"
    and d: "max_drawdown sample_result = 1 / 10000"
    by (simp_all add: sample_result_def)
  from max_drawdown_running_peak[OF sample_performance]
  have "max_drawdown sample_result =
          Max (drawdown_at (equity_curve sample_result) ` {..<length (equity_curve sample_result)})"
    by (rule conjunct1)
  then have "Max (drawdown_at [100000, 99990, 100020] ` {..<length [100000, 99990, 100020 :: real]})
             = 1 / 10000"
    unfolding c d by (rule sym)
  with c d sample_performance show ?thesis by blast
qed

section \<open>Properties of the header-row search\<close>

lemma find_header_loop_none:
  assumes "delimiter \<noteq> []" "\<forall>line \<in> set rest_lines. \<not> line_has_keywords U delimiter line"
  shows "find_header_loop U delimiter i rest_lines = Inr 0"
  using assms by (induction rest_lines arbitrary: i) simp_all

lemma find_header_loop_first:
  assumes "delimiter \<noteq> []" "k < length rest_lines" "line_has_keywords U delimiter (rest_lines ! k)"
    "\<forall>j<k. \<not> line_has_keywords U delimiter (rest_lines ! j)"
  shows "find_header_loop U delimiter i rest_lines = Inr (i + k)"
  using assms
proof (induction rest_lines arbitrary: i k)
  case Nil
  then show ?case by simp
next
  case (Cons line rest_lines)
  show ?case
  proof (cases k)
    case 0
    then show ?thesis using Cons.prems by simp
  next
    case (Suc k')
    have first: "\<not> line_has_keywords U delimiter line"
      using Cons.prems(4) Suc by auto
    have rest: "\<forall>j<k'. \<not> line_has_keywords U delimiter (rest_lines ! j)"
      using Cons.prems(4) Suc by auto
    have "find_header_loop U delimiter (Suc i) rest_lines = Inr (Suc i + k')"
      using Cons.IH[of k' "Suc i"] Cons.prems Suc rest by simp
    then show ?thesis using first Cons.prems(1) Suc by simp
  qed
qed

lemma sniff_delimiters_nonempty: "d \<in> set (sniff_delimiters sample) \<Longrightarrow> d \<noteq> []"
  by (auto simp: sniff_delimiters_def Let_def split: if_splits)

lemma find_header_row_total:
  "delimiter \<noteq> [] \<Longrightarrow> \<exists>h. find_header_row U lines delimiter = Inr h"
proof -
  have "delimiter \<noteq> [] \<Longrightarrow> \<exists>h. find_header_loop U delimiter i ls = Inr h" for i ls
    by (induction ls arbitrary: i) simp_all
  then show "delimiter \<noteq> [] \<Longrightarrow> \<exists>h. find_header_row U lines delimiter = Inr h"
    by (simp add: find_header_row_def)
qed

lemma try_delimiters_result:
  assumes "\<forall>d \<in> set delims. d \<noteq> []"
  shows "(\<forall>e. try_delimiters U read_csv enc sample delims \<noteq> Inl e)
       \<and> (\<forall>df info. try_delimiters U read_csv enc sample delims = Inr (Some (df, info)) \<longrightarrow>
            i_encoding info = enc \<and> i_delimiter info \<in> set delims
            \<and> find_header_row U sample (i_delimiter info) = Inr (i_header_row info)
            \<and> i_sample_lines info = take 20 sample)"
  using assms
proof (induction delims)
  case Nil
  then show ?case by simp
next
  case (Cons d ds)
  obtain h where h: "find_header_row U sample d = Inr h"
    using find_header_row_total[of d U sample] Cons.prems by auto
  have IH: "(\<forall>e. try_delimiters U read_csv enc sample ds \<noteq> Inl e)
       \<and> (\<forall>df info. try_delimiters U read_csv enc sample ds = Inr (Some (df, info)) \<longrightarrow>
            i_encoding info = enc \<and> i_delimiter info \<in> set ds
            \<and> find_header_row U sample (i_delimiter info) = Inr (i_header_row info)
            \<and> i_sample_lines info = take 20 sample)"
    using Cons by simp
  show ?case
  proof (cases "read_csv enc d h")
    case None
    then show ?thesis using h IH by simp
  next
    case (Some raw)
    show ?thesis
    proof (cases "\<not> frame_empty (clean_frame U raw) \<and> plausible (clean_frame U raw)")
      case True
      then show ?thesis using h Some by (auto simp: Let_def)
    next
      case False
      then have "try_delimiters U read_csv enc sample (d # ds)
                 = try_delimiters U read_csv enc sample ds"
        using h Some by (auto simp: Let_def)
      then show ?thesis using IH by simp
    qed
  qed
qed

lemma attempt_read_result:
  "(\<forall>e. try_encodings U read_sample read_csv encs \<noteq> Inl e)
   \<and> (\<forall>df info. try_encodings U read_sample read_csv encs = Inr (Some (df, info)) \<longrightarrow>
        (\<exists>sample. read_sample (i_encoding info) = Some sample
           \<and> i_delimiter info \<in> set (sniff_delimiters (join_with [10] sample))
           \<and> find_header_row U sample (i_delimiter info) = Inr (i_header_row info)
           \<and> i_sample_lines info = take 20 sample))"
proof (induction encs)
  case Nil
  then show ?case by simp
next
  case (Cons enc encs)
  show ?case
  proof (cases "read_sample enc")
    case None
    then show ?thesis using Cons by simp
  next
    case (Some sample)
    let ?ds = "sniff_delimiters (join_with [10] sample)"
    have ne: "\<forall>d \<in> set ?ds. d \<noteq> []" using sniff_delimiters_nonempty by blast
    note td = try_delimiters_result[OF ne, of U read_csv enc sample]
    show ?thesis
    proof (cases "try_delimiters U read_csv enc sample ?ds")
      case (Inl e)
      then show ?thesis using td by simp
    next
      case (Inr res)
      show ?thesis
      proof (cases res)
        case None
        then show ?thesis using Some Inr Cons by simp
      next
        case (Some r)
        obtain df info where r: "r = (df, info)" by (cases r)
        have "i_encoding info = enc \<and> i_delimiter info \<in> set ?ds
            \<and> find_header_row U sample (i_delimiter info) = Inr (i_header_row info)
            \<and> i_sample_lines info = take 20 sample"
          using td Inr Some r by simp
        then show ?thesis
          using \<open>read_sample enc = Some sample\<close> Inr Some r by auto
      qed
    qed
  qed
qed

text \<open>
  C7. With a delimiter that is not empty, the header-row search returns the index of
  the first of the first 10 lines whose stripped tokens contain all three keywords,
  and 0 when there is no such line. So a file whose line 0 lacks the keywords and
  whose line 1 has them all gets header row 1, not 0. The loader only searches with
  the delimiters it sniffed, none of which is empty, so the search never fails, and
  the header row of the frame the loader returns is the result of the search on the
  sample lines with the delimiter of that frame.
\<close>

theorem find_header_row_first_match:
  assumes "delimiter \<noteq> []"
  shows "(\<forall>k. k < length lines \<and> k < 10 \<and> line_has_keywords U delimiter (lines ! k)
              \<and> (\<forall>j<k. \<not> line_has_keywords U delimiter (lines ! j))
            \<longrightarrow> find_header_row U lines delimiter = Inr k)
       \<and> ((\<forall>j. j < length lines \<and> j < 10 \<longrightarrow> \<not> line_has_keywords U delimiter (lines ! j))
            \<longrightarrow> find_header_row U lines delimiter = Inr 0)
       \<and> (2 \<le> length lines \<and> \<not> line_has_keywords U delimiter (lines ! 0)
              \<and> line_has_keywords U delimiter (lines ! 1)
            \<longrightarrow> find_header_row U lines delimiter = Inr 1)
       \<and> (\<forall>e. attempt_read U enc_guesses read_sample read_csv \<noteq> Inl e)
       \<and> (attempt_read U enc_guesses read_sample read_csv = Inr (Some (df, info)) \<longrightarrow>
            (\<exists>sample. read_sample (i_encoding info) = Some sample
               \<and> i_delimiter info \<in> set (sniff_delimiters (join_with [10] sample))
               \<and> i_delimiter info \<noteq> []
               \<and> find_header_row U sample (i_delimiter info) = Inr (i_header_row info)))"
proof -
  have first: "find_header_row U lines delimiter = Inr k"
    if "k < length lines" "k < 10" "line_has_keywords U delimiter (lines ! k)"
      "\<forall>j<k. \<not> line_has_keywords U delimiter (lines ! j)" for k
  proof -
    have "find_header_loop U delimiter 0 (take 10 lines) = Inr (0 + k)"
      by (rule find_header_loop_first) (use assms that in auto)
    then show ?thesis by (simp add: find_header_row_def)
  qed
  have none: "find_header_row U lines delimiter = Inr 0"
    if "\<forall>j. j < length lines \<and> j < 10 \<longrightarrow> \<not> line_has_keywords U delimiter (lines ! j)"
  proof -
    have "\<forall>line \<in> set (take 10 lines). \<not> line_has_keywords U delimiter line"
      using that by (auto simp: in_set_conv_nth)
    then show ?thesis
      using find_header_loop_none[OF assms] by (simp add: find_header_row_def)
  qed
  have second: "find_header_row U lines delimiter = Inr 1"
    if "2 \<le> length lines" "\<not> line_has_keywords U delimiter (lines ! 0)"
      "line_has_keywords U delimiter (lines ! 1)"
    by (rule first) (use that in auto)
  have raise: "\<forall>e. attempt_read U enc_guesses read_sample read_csv \<noteq> Inl e"
    using attempt_read_result[of U read_sample read_csv enc_guesses]
    by (simp add: attempt_read_def)
  have chosen: "attempt_read U enc_guesses read_sample read_csv = Inr (Some (df, info)) \<longrightarrow>
            (\<exists>sample. read_sample (i_encoding info) = Some sample
               \<and> i_delimiter info \<in> set (sniff_delimiters (join_with [10] sample))
               \<and> i_delimiter info \<noteq> []
               \<and> find_header_row U sample (i_delimiter info) = Inr (i_header_row info))"
    using attempt_read_result[of U read_sample read_csv enc_guesses] sniff_delimiters_nonempty
    unfolding attempt_read_def by blast
  have a: "\<forall>k. k < length lines \<and> k < 10 \<and> line_has_keywords U delimiter (lines ! k)
              \<and> (\<forall>j<k. \<not> line_has_keywords U delimiter (lines ! j))
            \<longrightarrow> find_header_row U lines delimiter = Inr k"
    using first by blast
  have b: "(\<forall>j. j < length lines \<and> j < 10 \<longrightarrow> \<not> line_has_keywords U delimiter (lines ! j))
            \<longrightarrow> find_header_row U lines delimiter = Inr 0"
    using none by blast
  have c: "2 \<le> length lines \<and> \<not> line_has_keywords U delimiter (lines ! 0)
              \<and> line_has_keywords U delimiter (lines ! 1)
            \<longrightarrow> find_header_row U lines delimiter = Inr 1"
    using second by blast
  from a b c raise chosen show ?thesis by (intro conjI)
qed

lemma titled_file_lines:
  "\<not> line_has_keywords ascii_tables (ascii '','') (titled_file ! 0)"
  "line_has_keywords ascii_tables (ascii '','') (titled_file ! 1)"
  by (simp_all add: titled_file_def line_has_keywords_def split_def strip_def
        ascii_tables_def ascii_isspace_def header_keywords_def kw_trade_date_def
        kw_strike_def kw_call_put_def ascii_def split_loop_Nil split_loop_Cons)

lemma titled_file_header: "find_header_row ascii_tables titled_file (ascii '','') = Inr 1"
  by (simp add: find_header_row_def titled_file_def line_has_keywords_def split_def strip_def
        ascii_tables_def ascii_isspace_def header_keywords_def kw_trade_date_def
        kw_strike_def kw_call_put_def ascii_def split_loop_Nil split_loop_Cons)

lemma titled_file_delimiters:
  "sniff_delimiters (join_with [10] titled_file) = [ascii '','']"
  by (simp add: sniff_delimiters_def titled_file_def ascii_def search_eval)

lemma titled_frame_clean: "clean_frame ascii_tables titled_frame = titled_frame"
  by (simp add: clean_frame_def titled_frame_def kw_trade_date_def kw_strike_def ascii_def
        strip_def ascii_tables_def ascii_isspace_def)

lemma titled_frame_plausible: "\<not> frame_empty titled_frame \<and> plausible titled_frame"
  by (simp add: frame_empty_def plausible_def titled_frame_def kw_trade_date_def kw_strike_def
        kw_call_put_def kw_open_contracts_def search_eval)

lemma titled_attempt_read:
  "attempt_read ascii_tables [ascii ''utf-8''] titled_sample titled_csv
     = Inr (Some (titled_frame, titled_info))"
proof -
  have t: "take 20 titled_file = titled_file" by (simp add: titled_file_def)
  have td: "try_delimiters ascii_tables titled_csv (ascii ''utf-8'') titled_file [ascii '','']
              = Inr (Some (titled_frame, titled_info))"
    by (simp add: titled_file_header titled_csv_def titled_frame_clean titled_frame_plausible
          titled_info_def t)
  show ?thesis
    by (simp only: attempt_read_def try_encodings.simps titled_sample_def td
          titled_file_delimiters option.case sum.case)
qed

theorem find_header_row_first_match_witness:
  "ascii '','' \<noteq> [] \<and> 2 \<le> length titled_file
   \<and> \<not> line_has_keywords ascii_tables (ascii '','') (titled_file ! 0)
   \<and> line_has_keywords ascii_tables (ascii '','') (titled_file ! 1)
   \<and> find_header_row ascii_tables titled_file (ascii '','') = Inr 1
   \<and> attempt_read ascii_tables [ascii ''utf-8''] titled_sample titled_csv
       = Inr (Some (titled_frame, titled_info))
   \<and> (\<exists>sample. titled_sample (i_encoding titled_info) = Some sample
         \<and> find_header_row ascii_tables sample (i_delimiter titled_info)
             = Inr (i_header_row titled_info))"
proof -
  have d: "ascii '','' \<noteq> []" by (simp add: ascii_def)
  have l: "2 \<le> length titled_file" by (simp add: titled_file_def)
  note inst = find_header_row_first_match[OF d, where lines = titled_file and U = ascii_tables
      and enc_guesses = "[ascii ''utf-8'']" and read_sample = titled_sample
      and read_csv = titled_csv and df = titled_frame and info = titled_info]
  from inst have second: "2 \<le> length titled_file
          \<and> \<not> line_has_keywords ascii_tables (ascii '','') (titled_file ! 0)
          \<and> line_has_keywords ascii_tables (ascii '','') (titled_file ! 1)
        \<longrightarrow> find_header_row ascii_tables titled_file (ascii '','') = Inr 1"
    by (rule conjunct2[THEN conjunct2, THEN conjunct1])
  from inst have chosen: "attempt_read ascii_tables [ascii ''utf-8''] titled_sample titled_csv
          = Inr (Some (titled_frame, titled_info)) \<longrightarrow>
        (\<exists>sample. titled_sample (i_encoding titled_info) = Some sample
           \<and> i_delimiter titled_info \<in> set (sniff_delimiters (join_with [10] sample))
           \<and> i_delimiter titled_info \<noteq> []
           \<and> find_header_row ascii_tables sample (i_delimiter titled_info)
               = Inr (i_header_row titled_info))"
    by (rule conjunct2[THEN conjunct2, THEN conjunct2, THEN conjunct2])
  from second l titled_file_lines
  have h: "find_header_row ascii_tables titled_file (ascii '','') = Inr 1" by blast
  from chosen titled_attempt_read
  have e: "\<exists>sample. titled_sample (i_encoding titled_info) = Some sample
         \<and> find_header_row ascii_tables sample (i_delimiter titled_info)
             = Inr (i_header_row titled_info)" by blast
  from d l titled_file_lines h titled_attempt_read e show ?thesis by (intro conjI) simp_all
qed
section \<open>Properties of the type classifier\<close>

lemmas keyword_defs =
  stock_keywords_def option_future_keywords_def non_column_keywords_def

lemmas indicator_defs =
  option_indicators_def future_indicators_def stock_indicators_def

lemmas score_eval =
  calculate_data_score_def score_text_def isdigit_def remove_char_def keyword_defs
  ascii_tables_def ascii_lower_char_def ascii_isdigit_def ascii_def

lemma calculate_data_score_nonneg: "0 \<le> calculate_data_score U columns"
  by (simp add: calculate_data_score_def Let_def)

lemma process_first_row:
  assumes "rows = [] \<or> 3 \<le> calculate_data_score U columns
           \<or> calculate_data_score U (hd rows) \<le> calculate_data_score U columns"
  shows "process_data_chunk_fast U columns rows =
           Inr \<lparr>score_first_row = calculate_data_score U columns,
                 score_second_row =
                   (if rows \<noteq> [] \<and> calculate_data_score U columns < 3 \<and> hd rows \<noteq> []
                    then calculate_data_score U (hd rows) else 0),
                 data_start_index = 0, column_names = lowered_names U columns,
                 route = choose_route U (lowered_names U columns) 0 None columns rows\<rparr>"
proof (cases rows)
  case Nil
  then show ?thesis
    using calculate_data_score_nonneg[of U columns]
    by (simp add: process_data_chunk_fast_def Let_def)
next
  case (Cons r rs)
  show ?thesis
  proof (cases "calculate_data_score U columns < 3 \<and> r \<noteq> []")
    case True
    then have "calculate_data_score U r \<le> calculate_data_score U columns"
      using assms Cons by auto
    then show ?thesis
      using True Cons by (simp add: process_data_chunk_fast_def Let_def)
  next
    case False
    then have "(if calculate_data_score U columns < 3 \<and> r \<noteq> []
                then calculate_data_score U r else 0) = 0"
      by auto
    moreover have "(if rows \<noteq> [] \<and> calculate_data_score U columns < 3 \<and> hd rows \<noteq> []
                then calculate_data_score U (hd rows) else 0) = 0"
      using False Cons by auto
    ultimately show ?thesis
      using Cons calculate_data_score_nonneg[of U columns]
      unfolding process_data_chunk_fast_def Let_def by simp
  qed
qed

lemma process_second_row:
  assumes "rows = r # rs" "calculate_data_score U columns < 3"
    "calculate_data_score U columns < calculate_data_score U r"
  shows "process_data_chunk_fast U columns rows =
           Inr \<lparr>score_first_row = calculate_data_score U columns,
                 score_second_row = calculate_data_score U r,
                 data_start_index = 1, column_names = lowered_names U r,
                 route = choose_route U (lowered_names U r) 1
                           (extract_symbol_from_skipped_rows U columns r) columns rs\<rparr>"
proof -
  have "r \<noteq> []"
  proof
    assume "r = []"
    then have "calculate_data_score U r = 0" by (simp add: calculate_data_score_def)
    then show False using assms(3) calculate_data_score_nonneg[of U columns] by simp
  qed
  then show ?thesis
    using assms by (simp add: process_data_chunk_fast_def Let_def)
qed

lemma score_hdr_options: "calculate_data_score ascii_tables hdr_options = 6"
  by (simp add: hdr_options_def score_eval)

lemma score_hdr_stocks: "calculate_data_score ascii_tables hdr_stocks = 15"
  by (simp add: hdr_stocks_def score_eval)

lemma score_hdr_mixed: "calculate_data_score ascii_tables hdr_mixed = 13"
  by (simp add: hdr_mixed_def score_eval)

lemma score_title_row: "calculate_data_score ascii_tables title_row = 3"
  by (simp add: title_row_def score_eval)

lemma score_weak_title_row: "calculate_data_score ascii_tables weak_title_row = 0"
  by (simp add: weak_title_row_def score_eval)

lemmas names_eval =
  lowered_names_def option_score_def future_score_def stock_score_def indicator_defs
  ascii_tables_def ascii_lower_char_def ascii_def

lemma names_hdr_options:
  "option_score (lowered_names ascii_tables hdr_options) = 2"
  by (simp add: hdr_options_def names_eval)

lemma names_hdr_stocks:
  "option_score (lowered_names ascii_tables hdr_stocks) = 0"
  "future_score (lowered_names ascii_tables hdr_stocks) = 0"
  "stock_score (lowered_names ascii_tables hdr_stocks) = 5"
  by (simp_all add: hdr_stocks_def names_eval)

lemma names_hdr_mixed:
  "option_score (lowered_names ascii_tables hdr_mixed) = 2"
  "stock_score (lowered_names ascii_tables hdr_mixed) = 3"
  by (simp_all add: hdr_mixed_def names_eval)

lemma score_hdr_capitals: "calculate_data_score ascii_tables hdr_capitals = 9"
  by (simp add: hdr_capitals_def score_eval)

lemma score_hdr_futures: "calculate_data_score ascii_tables hdr_futures = 9"
  by (simp add: hdr_futures_def score_eval)

lemma names_hdr_capitals:
  "option_score (lowered_names ascii_tables hdr_capitals) = 3"
  by (simp add: hdr_capitals_def names_eval)

lemma names_hdr_futures:
  "option_score (lowered_names ascii_tables hdr_futures) = 0"
  "future_score (lowered_names ascii_tables hdr_futures) = 2"
  "stock_score (lowered_names ascii_tables hdr_futures) = 1"
  by (simp_all add: hdr_futures_def names_eval)

lemma no_symbol_hdr_stocks: "extract_symbol_from_header ascii_tables hdr_stocks = None"
  by (simp add: hdr_stocks_def search_eval)

lemma process_hdr_options:
  "map_sum id route (process_data_chunk_fast ascii_tables hdr_options any_rows) = Inr ImportOptions"
proof -
  have "3 \<le> calculate_data_score ascii_tables hdr_options"
    by (simp add: score_hdr_options)
  then show ?thesis
    by (simp add: process_first_row choose_route_def names_hdr_options)
qed

lemma process_hdr_stocks:
  "map_sum id route (process_data_chunk_fast ascii_tables hdr_stocks any_rows) = Inr ImportStocks"
proof -
  have "3 \<le> calculate_data_score ascii_tables hdr_stocks"
    by (simp add: score_hdr_stocks)
  then show ?thesis
    by (simp add: process_first_row choose_route_def names_hdr_stocks no_symbol_hdr_stocks)
qed

lemma process_hdr_capitals:
  "map_sum id route (process_data_chunk_fast ascii_tables hdr_capitals any_rows) = Inr ImportOptions"
proof -
  have "3 \<le> calculate_data_score ascii_tables hdr_capitals"
    by (simp add: score_hdr_capitals)
  then show ?thesis
    by (simp add: process_first_row choose_route_def names_hdr_capitals)
qed

lemma process_hdr_futures:
  "map_sum id route (process_data_chunk_fast ascii_tables hdr_futures any_rows) = Inr ImportFutures"
proof -
  have "3 \<le> calculate_data_score ascii_tables hdr_futures"
    by (simp add: score_hdr_futures)
  then show ?thesis
    by (simp add: process_first_row choose_route_def names_hdr_futures)
qed

lemma process_hdr_mixed_route:
  "map_sum id route (process_data_chunk_fast ascii_tables hdr_mixed any_rows) = Inr ImportOptions"
proof -
  have "3 \<le> calculate_data_score ascii_tables hdr_mixed"
    by (simp add: score_hdr_mixed)
  then show ?thesis
    by (simp add: process_first_row choose_route_def names_hdr_mixed)
qed

lemma process_hdr_mixed:
  "process_data_chunk_fast ascii_tables hdr_mixed [] = Inr decision_mixed"
  by (simp add: process_first_row choose_route_def names_hdr_mixed score_hdr_mixed
        decision_mixed_def)

lemma process_cases:
  assumes "process_data_chunk_fast U columns rows = Inr d"
  shows "\<exists>start info cols rs.
           route d = choose_route U (column_names d) start info cols rs
           \<and> column_names d = lowered_names U (if data_start_index d = 0 then columns else hd rows)"
proof (cases "rows = [] \<or> 3 \<le> calculate_data_score U columns
           \<or> calculate_data_score U (hd rows) \<le> calculate_data_score U columns")
  case True
  from process_first_row[OF True] assms
  have "route d = choose_route U (column_names d) 0 None columns rows"
    and "column_names d = lowered_names U (if data_start_index d = 0 then columns else hd rows)"
    by auto
  then show ?thesis by blast
next
  case False
  then obtain r rs where rows: "rows = r # rs" by (cases rows) auto
  have "calculate_data_score U columns < 3"
    "calculate_data_score U columns < calculate_data_score U r"
    using False rows by auto
  from process_second_row[OF rows this] assms rows
  have "route d = choose_route U (column_names d) 1
                    (extract_symbol_from_skipped_rows U columns r) columns rs"
    and "column_names d = lowered_names U (if data_start_index d = 0 then columns else hd rows)"
    by auto
  then show ?thesis by blast
qed

lemma process_total: "\<exists>d. process_data_chunk_fast U columns rows = Inr d"
proof (cases "rows = [] \<or> 3 \<le> calculate_data_score U columns
           \<or> calculate_data_score U (hd rows) \<le> calculate_data_score U columns")
  case True
  from process_first_row[OF True] show ?thesis by blast
next
  case False
  then obtain r rs where rows: "rows = r # rs" by (cases rows) auto
  have "calculate_data_score U columns < 3"
    "calculate_data_score U columns < calculate_data_score U r"
    using False rows by auto
  from process_second_row[OF rows this] show ?thesis by blast
qed

text \<open>
  C3. The classifier takes the header row it has chosen, lowercases every name, and
  counts the names that are in the option, the future and the stock indicator set.
  It decides in this order: options exactly when the option count is at least 2;
  futures exactly when the option count is 0 and the future count is at least 2;
  stocks (with or without a recovered symbol) when the stock count is at least 2 and
  both other counts are 0; otherwise the second pass, which imports stocks with a
  recovered symbol or asks the operator. The header strike price, call/put, expiry
  month is imported as options, also the header \<^verbatim>\<open>Strike\<close>, \<^verbatim>\<open>CP\<close>, \<^verbatim>\<open>Expiry\<close>
  written with capitals; the header \<^verbatim>\<open>settlement\<close>, \<^verbatim>\<open>oi\<close>, \<^verbatim>\<open>volume\<close> as
  futures; the header open, high, low, close, volume as stocks; a header with two
  option columns and three stock columns as options; whatever rows follow.
\<close>

theorem classification_cascade:
  "(\<exists>d. process_data_chunk_fast U columns rows = Inr d
      \<and> column_names d
          = (\<lambda>col. u_lower U (str_of col))
              ` set (if data_start_index d = 0 then columns else hd rows)
      \<and> (route d = ImportOptions \<longleftrightarrow> 2 \<le> card (column_names d \<inter> option_indicators))
      \<and> (route d = ImportFutures \<longleftrightarrow>
            card (column_names d \<inter> option_indicators) = 0
            \<and> 2 \<le> card (column_names d \<inter> future_indicators))
      \<and> (card (column_names d \<inter> option_indicators) = 0
            \<and> card (column_names d \<inter> future_indicators) = 0
            \<and> 2 \<le> card (column_names d \<inter> stock_indicators)
          \<longrightarrow> route d = ImportStocks \<or> (\<exists>info. route d = ImportStocksWithSymbol info))
      \<and> (route d = ImportStocks \<longrightarrow>
            card (column_names d \<inter> option_indicators) = 0
            \<and> card (column_names d \<inter> future_indicators) = 0
            \<and> 2 \<le> card (column_names d \<inter> stock_indicators))
      \<and> (route d = AskUser \<longrightarrow>
            card (column_names d \<inter> option_indicators) < 2
            \<and> \<not> (card (column_names d \<inter> option_indicators) = 0
                   \<and> 2 \<le> card (column_names d \<inter> future_indicators))
            \<and> \<not> (card (column_names d \<inter> option_indicators) = 0
                   \<and> card (column_names d \<inter> future_indicators) = 0
                   \<and> 2 \<le> card (column_names d \<inter> stock_indicators))))
   \<and> map_sum id route (process_data_chunk_fast ascii_tables hdr_options any_rows)
       = Inr ImportOptions
   \<and> map_sum id route (process_data_chunk_fast ascii_tables hdr_capitals any_rows)
       = Inr ImportOptions
   \<and> map_sum id route (process_data_chunk_fast ascii_tables hdr_futures any_rows)
       = Inr ImportFutures
   \<and> map_sum id route (process_data_chunk_fast ascii_tables hdr_stocks any_rows)
       = Inr ImportStocks
   \<and> map_sum id route (process_data_chunk_fast ascii_tables hdr_mixed any_rows)
       = Inr ImportOptions"
proof -
  obtain d where d: "process_data_chunk_fast U columns rows = Inr d"
    using process_total by blast
  obtain start info cols rs where
    r: "route d = choose_route U (column_names d) start info cols rs"
    and n: "column_names d = lowered_names U (if data_start_index d = 0 then columns else hd rows)"
    using process_cases[OF d] by blast
  define po where "po = card (column_names d \<inter> option_indicators)"
  define pf where "pf = card (column_names d \<inter> future_indicators)"
  define ps where "ps = card (column_names d \<inter> stock_indicators)"
  have sc: "option_score (column_names d) = po" "future_score (column_names d) = pf"
    "stock_score (column_names d) = ps"
    by (simp_all add: po_def pf_def ps_def option_score_def future_score_def stock_score_def)
  have names: "column_names d
          = (\<lambda>col. u_lower U (str_of col))
              ` set (if data_start_index d = 0 then columns else hd rows)"
    unfolding n lowered_names_def by simp
  have opt: "route d = ImportOptions \<longleftrightarrow> 2 \<le> po"
    using r by (auto simp: choose_route_def sc split: option.splits if_splits)
  have fut: "route d = ImportFutures \<longleftrightarrow> po = 0 \<and> 2 \<le> pf"
    using r by (auto simp: choose_route_def sc split: option.splits if_splits)
  have stk: "po = 0 \<and> pf = 0 \<and> 2 \<le> ps
          \<longrightarrow> route d = ImportStocks \<or> (\<exists>info. route d = ImportStocksWithSymbol info)"
    using r by (auto simp: choose_route_def sc split: option.splits if_splits)
  have stk': "route d = ImportStocks \<longrightarrow> po = 0 \<and> pf = 0 \<and> 2 \<le> ps"
    using r by (auto simp: choose_route_def sc split: option.splits if_splits)
  have ask: "route d = AskUser \<longrightarrow>
            po < 2 \<and> \<not> (po = 0 \<and> 2 \<le> pf) \<and> \<not> (po = 0 \<and> pf = 0 \<and> 2 \<le> ps)"
    using r by (auto simp: choose_route_def sc split: option.splits if_splits)
  have ex: "\<exists>d. process_data_chunk_fast U columns rows = Inr d
      \<and> column_names d
          = (\<lambda>col. u_lower U (str_of col))
              ` set (if data_start_index d = 0 then columns else hd rows)
      \<and> (route d = ImportOptions \<longleftrightarrow> 2 \<le> card (column_names d \<inter> option_indicators))
      \<and> (route d = ImportFutures \<longleftrightarrow>
            card (column_names d \<inter> option_indicators) = 0
            \<and> 2 \<le> card (column_names d \<inter> future_indicators))
      \<and> (card (column_names d \<inter> option_indicators) = 0
            \<and> card (column_names d \<inter> future_indicators) = 0
            \<and> 2 \<le> card (column_names d \<inter> stock_indicators)
          \<longrightarrow> route d = ImportStocks \<or> (\<exists>info. route d = ImportStocksWithSymbol info))
      \<and> (route d = ImportStocks \<longrightarrow>
            card (column_names d \<inter> option_indicators) = 0
            \<and> card (column_names d \<inter> future_indicators) = 0
            \<and> 2 \<le> card (column_names d \<inter> stock_indicators))
      \<and> (route d = AskUser \<longrightarrow>
            card (column_names d \<inter> option_indicators) < 2
            \<and> \<not> (card (column_names d \<inter> option_indicators) = 0
                   \<and> 2 \<le> card (column_names d \<inter> future_indicators))
            \<and> \<not> (card (column_names d \<inter> option_indicators) = 0
                   \<and> card (column_names d \<inter> future_indicators) = 0
                   \<and> 2 \<le> card (column_names d \<inter> stock_indicators)))"
    using d names opt fut stk stk' ask
    unfolding po_def pf_def ps_def by (intro exI[of _ d] conjI)
  from ex process_hdr_options process_hdr_capitals process_hdr_futures process_hdr_stocks
    process_hdr_mixed_route
  show ?thesis by (intro conjI)
qed

theorem classification_cascade_witness:
  "process_data_chunk_fast ascii_tables hdr_mixed [] = Inr decision_mixed
   \<and> card (column_names decision_mixed \<inter> option_indicators) = 2
   \<and> card (column_names decision_mixed \<inter> stock_indicators) = 3
   \<and> route decision_mixed = ImportOptions"
proof -
  have s: "card (column_names decision_mixed \<inter> option_indicators) = 2"
      "card (column_names decision_mixed \<inter> stock_indicators) = 3"
    using names_hdr_mixed
    by (simp_all add: decision_mixed_def option_score_def stock_score_def)
  from classification_cascade[of ascii_tables hdr_mixed "[]"]
  obtain d where d: "process_data_chunk_fast ascii_tables hdr_mixed [] = Inr d"
    and o: "route d = ImportOptions \<longleftrightarrow> 2 \<le> card (column_names d \<inter> option_indicators)"
    by blast
  have e: "d = decision_mixed" using d process_hdr_mixed by simp
  have "route decision_mixed = ImportOptions" using o s(1) unfolding e by simp
  with process_hdr_mixed s show ?thesis by (intro conjI)
qed

text \<open>
  C4 (as amended). The second row of the chunk is scored only when the score of the
  first row is below 3. The first row gives the column names when its score is at
  least 3, or there is no second row, or its score is not lower than the score of the
  second row; the second row gives them, and the first row is skipped as a title
  line, exactly when the score of the first row is below 3 and strictly lower than
  the score of the second row.
\<close>

theorem header_row_choice:
  "\<exists>d. process_data_chunk_fast U columns rows = Inr d
      \<and> score_first_row d = calculate_data_score U columns
      \<and> (data_start_index d = 0 \<or> data_start_index d = 1)
      \<and> (data_start_index d = 1 \<longleftrightarrow>
           (rows \<noteq> [] \<and> calculate_data_score U columns < 3
            \<and> calculate_data_score U columns < calculate_data_score U (hd rows)))
      \<and> column_names d = lowered_names U (if data_start_index d = 0 then columns else hd rows)"
proof (cases "rows = [] \<or> 3 \<le> calculate_data_score U columns
           \<or> calculate_data_score U (hd rows) \<le> calculate_data_score U columns")
  case True
  from process_first_row[OF True] True show ?thesis by auto
next
  case False
  then obtain r rs where rows: "rows = r # rs" by (cases rows) auto
  have lt: "calculate_data_score U columns < 3"
    "calculate_data_score U columns < calculate_data_score U r"
    using False rows by auto
  from process_second_row[OF rows lt] rows lt show ?thesis by auto
qed

text \<open>
  The claim as stated fails: a title line with score 3 before a header with score 15
  is taken as the header, although its score is lower.
\<close>

theorem header_row_choice_counterexample:
  "calculate_data_score ascii_tables title_row = 3
   \<and> calculate_data_score ascii_tables hdr_stocks = 15
   \<and> map_sum id data_start_index
        (process_data_chunk_fast ascii_tables title_row [hdr_stocks, hdr_stocks]) = Inr 0"
  by (simp add: score_title_row score_hdr_stocks process_first_row)

theorem header_row_choice_witness:
  "calculate_data_score ascii_tables weak_title_row = 0
   \<and> calculate_data_score ascii_tables hdr_stocks = 15
   \<and> map_sum id data_start_index
        (process_data_chunk_fast ascii_tables weak_title_row [hdr_stocks, hdr_stocks]) = Inr 1"
proof -
  obtain d where d: "process_data_chunk_fast ascii_tables weak_title_row [hdr_stocks, hdr_stocks] = Inr d"
    "data_start_index d = 1 \<longleftrightarrow>
           ([hdr_stocks, hdr_stocks] \<noteq> [] \<and> calculate_data_score ascii_tables weak_title_row < 3
            \<and> calculate_data_score ascii_tables weak_title_row
                < calculate_data_score ascii_tables (hd [hdr_stocks, hdr_stocks]))"
    using header_row_choice[of ascii_tables weak_title_row "[hdr_stocks, hdr_stocks]"] by blast
  then show ?thesis
    by (simp add: score_weak_title_row score_hdr_stocks)
qed

section \<open>Properties of the symbol extraction\<close>

lemma takeWhile_run:
  assumes "list_all P xs" "ys = [] \<or> \<not> P (hd ys)"
  shows "takeWhile P (xs @ ys) = xs"
proof -
  have "takeWhile P ys = []" using assms(2) by (cases ys) auto
  then show ?thesis using assms(1) by (simp add: list_all_iff)
qed

lemma run_length_run:
  assumes "list_all P xs" "ys = [] \<or> \<not> P (hd ys)"
  shows "run_length P (xs @ ys) = length xs"
  by (simp add: run_length_def takeWhile_run[OF assms])

lemma counts_down_top:
  assumes "lo \<le> hi"
  shows "counts_down lo hi = hi # rev [lo..<hi]"
proof -
  have "[lo..<Suc hi] = [lo..<hi] @ [hi]" using assms by (rule upt_Suc_append)
  then show ?thesis unfolding counts_down_def by (simp only: rev_append rev.simps append.simps)
qed

lemma set_counts_down: "set (counts_down lo hi) = {lo..hi}"
  by (auto simp: counts_down_def)

lemma first_match_sound:
  "first_match f ns = Some r \<Longrightarrow> \<exists>n \<in> set ns. f n = Some r"
  by (induction ns) (auto split: option.splits)

lemma first_match_none:
  "(\<And>n. n \<in> set ns \<Longrightarrow> f n = None) \<Longrightarrow> first_match f ns = None"
  by (induction ns) auto

lemma list_all_takeWhile: "list_all P (takeWhile P xs)"
  by (induction xs) simp_all

lemma dropWhile_stops: "dropWhile P xs = [] \<or> \<not> P (hd (dropWhile P xs))"
  by (induction xs) simp_all

lemma take_run_all:
  assumes "k \<le> run_length P s"
  shows "list_all P (take k s)" and "length (take k s) = k"
proof -
  have k: "k \<le> length (takeWhile P s)" using assms by (simp add: run_length_def)
  have "take k s = take k (takeWhile P s @ dropWhile P s)" by simp
  also have "\<dots> = take k (takeWhile P s)"
    using k by (simp del: takeWhile_dropWhile_id)
  finally have eq: "take k s = take k (takeWhile P s)" .
  have "list_all P (take k (takeWhile P s))"
    using list_all_takeWhile[of P s] unfolding list_all_iff by (auto dest: in_set_takeD)
  then show "list_all P (take k s)" by (simp only: eq)
  have "length (takeWhile P s) \<le> length s" by (rule length_takeWhile_le)
  then show "length (take k s) = k" using k by simp
qed

lemma match_name_sound:
  assumes "match_name t = Some name"
  shows "\<exists>rest. t = name @ rest \<and> name \<noteq> [] \<and> list_all is_cjk name
               \<and> (rest = [] \<or> \<not> is_cjk (hd rest))"
proof -
  have n: "name = takeWhile is_cjk t" "name \<noteq> []"
    using assms by (auto simp: match_name_def Let_def split: if_splits)
  have "t = name @ dropWhile is_cjk t" using n by simp
  moreover have "list_all is_cjk name"
    unfolding n(1) by (rule list_all_takeWhile)
  moreover note dropWhile_stops[of is_cjk t] n(2)
  ultimately show ?thesis by (intro exI[of _ "dropWhile is_cjk t"] conjI)
qed

lemma match_spaces_sound:
  assumes "match_spaces U t = Some name"
  shows "\<exists>ws rest. t = ws @ name @ rest \<and> ws \<noteq> [] \<and> list_all (u_isspace U) ws
             \<and> name \<noteq> [] \<and> list_all is_cjk name \<and> (rest = [] \<or> \<not> is_cjk (hd rest))"
proof -
  from first_match_sound[OF assms[unfolded match_spaces_def]]
  obtain w where w0: "w \<in> set (counts_down 1 (run_length (u_isspace U) t))"
    and wn: "match_name (drop w t) = Some name" by blast
  have w: "1 \<le> w" "w \<le> run_length (u_isspace U) t"
    using w0 unfolding set_counts_down by simp_all
  from match_name_sound[OF wn]
  obtain rest where r: "drop w t = name @ rest" "name \<noteq> []" "list_all is_cjk name"
      "rest = [] \<or> \<not> is_cjk (hd rest)" by blast
  have t: "t = take w t @ name @ rest" using r(1) append_take_drop_id[of w t] by simp
  have ne: "take w t \<noteq> []" using take_run_all(2)[OF w(2)] w(1) by auto
  from t ne take_run_all(1)[OF w(2)] r(2) r(3) r(4)
  show ?thesis by (intro exI[of _ "take w t"] exI[of _ rest] conjI)
qed

lemma match_letters_sound:
  assumes "match_letters U t = Some (ls, name)"
  shows "\<exists>ws rest. t = ls @ ws @ name @ rest \<and> list_all is_ascii_letter ls
             \<and> ws \<noteq> [] \<and> list_all (u_isspace U) ws
             \<and> name \<noteq> [] \<and> list_all is_cjk name \<and> (rest = [] \<or> \<not> is_cjk (hd rest))"
proof -
  from first_match_sound[OF assms[unfolded match_letters_def]]
  obtain m where m0: "m \<in> set (counts_down 0 (run_length is_ascii_letter t))"
    and mm: "map_option (\<lambda>name. (take m t, name)) (match_spaces U (drop m t)) = Some (ls, name)"
    by blast
  have m: "m \<le> run_length is_ascii_letter t"
    using m0 unfolding set_counts_down by simp
  from mm have ls: "ls = take m t" and sp: "match_spaces U (drop m t) = Some name"
    by auto
  from match_spaces_sound[OF sp]
  obtain ws rest where r: "drop m t = ws @ name @ rest" "ws \<noteq> []" "list_all (u_isspace U) ws"
      "name \<noteq> []" "list_all is_cjk name" "rest = [] \<or> \<not> is_cjk (hd rest)" by blast
  have t: "t = ls @ ws @ name @ rest" using r(1) ls append_take_drop_id[of m t] by simp
  have l: "list_all is_ascii_letter ls" unfolding ls by (rule take_run_all(1)[OF m])
  from t l r(2) r(3) r(4) r(5) r(6)
  show ?thesis by (intro exI[of _ ws] exI[of _ rest] conjI)
qed

lemma match_code_sound:
  assumes "match_code U t = Some (code, name)"
  shows "pattern_body U t code name"
proof -
  from first_match_sound[OF assms[unfolded match_code_def]]
  obtain k where k0: "k \<in> set (counts_down 3 (min 6 (run_length (u_isdecimal U) t)))"
    and km: "map_option (\<lambda>(letters, name). (take k t @ letters, name))
               (match_letters U (drop k t)) = Some (code, name)"
    by blast
  have k: "3 \<le> k" "k \<le> 6" "k \<le> run_length (u_isdecimal U) t"
    using k0 unfolding set_counts_down by simp_all
  from km obtain ls where ls: "match_letters U (drop k t) = Some (ls, name)"
      "code = take k t @ ls"
    by auto
  from match_letters_sound[OF ls(1)]
  obtain ws rest where r: "drop k t = ls @ ws @ name @ rest" "list_all is_ascii_letter ls"
      "ws \<noteq> []" "list_all (u_isspace U) ws"
      "name \<noteq> []" "list_all is_cjk name" "rest = [] \<or> \<not> is_cjk (hd rest)" by blast
  have t: "t = take k t @ ls @ ws @ name @ rest"
    using r(1) append_take_drop_id[of k t] by simp
  have len: "3 \<le> length (take k t)" "length (take k t) \<le> 6"
    using take_run_all(2)[OF k(3)] k by simp_all
  from t ls(2) len take_run_all(1)[OF k(3)] r(2) r(3) r(4) r(5) r(6) r(7)
  show ?thesis
    unfolding pattern_body_def
    by (intro exI[of _ "take k t"] exI[of _ ls] exI[of _ ws] exI[of _ rest] conjI)
qed

lemma match_code_complete:
  assumes ok: "tables_ok U" and body: "pattern_body U t code name"
  shows "match_code U t = Some (code, name)"
proof -
  obtain ds ls ws rest where t: "t = ds @ ls @ ws @ name @ rest" and code: "code = ds @ ls"
    and ds: "3 \<le> length ds" "length ds \<le> 6" "list_all (u_isdecimal U) ds"
    and ls: "list_all is_ascii_letter ls"
    and ws: "ws \<noteq> []" "list_all (u_isspace U) ws"
    and name: "name \<noteq> []" "list_all is_cjk name"
    and rest: "rest = [] \<or> \<not> is_cjk (hd rest)"
    using body unfolding pattern_body_def by blast
  have sp_hd: "u_isspace U (hd ws)" using ws by (cases ws) auto
  have nm_hd: "is_cjk (hd name)" using name by (cases name) auto
  have n1: "match_name (name @ rest) = Some name"
    using takeWhile_run[OF name(2) rest] name(1) by (simp add: match_name_def)
  have "\<not> u_isspace U (hd (name @ rest))"
    using nm_hd name(1) ok by (auto simp: tables_ok_def)
  then have "run_length (u_isspace U) (ws @ name @ rest) = length ws"
    by (intro run_length_run ws) simp
  moreover have "counts_down 1 (length ws) = length ws # rev [1..<length ws]"
    by (rule counts_down_top) (use ws(1) in \<open>simp add: Suc_leI\<close>)
  ultimately have n2: "match_spaces U (ws @ name @ rest) = Some name"
    using n1 by (simp add: match_spaces_def)
  have "\<not> is_ascii_letter (hd (ws @ name @ rest))"
    using sp_hd ws(1) ok by (auto simp: tables_ok_def)
  then have "run_length is_ascii_letter (ls @ ws @ name @ rest) = length ls"
    by (intro run_length_run ls) simp
  moreover have "counts_down 0 (length ls) = length ls # rev [0..<length ls]"
    by (rule counts_down_top) simp
  ultimately have n3: "match_letters U (ls @ ws @ name @ rest) = Some (ls, name)"
    using n2 by (simp add: match_letters_def)
  have "\<not> u_isdecimal U (hd (ls @ ws @ name @ rest))"
  proof (cases ls)
    case Nil
    then show ?thesis using sp_hd ws(1) ok by (auto simp: tables_ok_def)
  next
    case (Cons l ls')
    then have "is_ascii_letter l" using ls by simp
    then show ?thesis using Cons ok by (auto simp: tables_ok_def)
  qed
  then have "run_length (u_isdecimal U) (ds @ ls @ ws @ name @ rest) = length ds"
    by (intro run_length_run ds) simp
  moreover have "counts_down 3 (length ds) = length ds # rev [3..<length ds]"
    by (rule counts_down_top) (rule ds)
  ultimately show ?thesis
    using n3 ds(2) by (simp add: match_code_def t code min_def)
qed

lemma match_at_sound:
  assumes "i \<le> length s" "match_at U (i = 0) (drop i s) = Some (code, name)"
  shows "occurs_at U s i code name"
proof (cases "i < length s")
  case True
  then have d: "drop i s = s ! i # drop (Suc i) s" by (simp add: Cons_nth_drop_Suc)
  have "(u_isspace U (s ! i) \<and> match_code U (drop (Suc i) s) = Some (code, name))
        \<or> (i = 0 \<and> match_code U (drop i s) = Some (code, name))"
    using assms(2) unfolding match_at_def
    by (subst (asm) (1) d) (auto split: if_splits option.splits)
  then show ?thesis
    using True match_code_sound by (auto simp: occurs_at_def)
next
  case False
  then have "drop i s = []" by simp
  then have "i = 0 \<and> match_code U s = Some (code, name)"
    using assms(2) by (auto simp: match_at_def split: if_splits)
  then show ?thesis using match_code_sound by (auto simp: occurs_at_def)
qed

lemma pattern_body_hd:
  assumes "pattern_body U t code name"
  shows "t \<noteq> [] \<and> u_isdecimal U (hd t)"
proof -
  obtain ds tl' where "t = ds @ tl'" "3 \<le> length ds" "list_all (u_isdecimal U) ds"
    using assms unfolding pattern_body_def by blast
  then show ?thesis by (cases ds) auto
qed

lemma match_at_complete:
  assumes ok: "tables_ok U" and occ: "occurs_at U s i code name"
  shows "match_at U (i = 0) (drop i s) = Some (code, name)"
proof (cases "i < length s \<and> u_isspace U (s ! i) \<and> pattern_body U (drop (Suc i) s) code name")
  case True
  then have d: "drop i s = s ! i # drop (Suc i) s" by (simp add: Cons_nth_drop_Suc)
  have "match_code U (drop (Suc i) s) = Some (code, name)"
    using True match_code_complete[OF ok] by blast
  then have "match_at U (i = 0) (s ! i # drop (Suc i) s) = Some (code, name)"
    using True by (simp add: match_at_def)
  then show ?thesis by (simp only: d)
next
  case False
  then have i: "i = 0" and b: "pattern_body U s code name"
    using occ by (auto simp: occurs_at_def)
  obtain c cs where s: "s = c # cs" "u_isdecimal U c"
    using pattern_body_hd[OF b] by (cases s) auto
  then have "\<not> u_isspace U c" using ok by (auto simp: tables_ok_def)
  then show ?thesis
    using i s match_code_complete[OF ok b] by (simp add: match_at_def)
qed

lemma search_from_skip:
  assumes "\<forall>j<length pre. match_at U (b \<and> j = 0) (drop j (pre @ suf)) = None"
  shows "search_from U b (pre @ suf) = search_from U (b \<and> pre = []) suf"
  using assms
proof (induction pre arbitrary: b)
  case Nil
  then show ?case by simp
next
  case (Cons c pre)
  have "match_at U b (c # pre @ suf) = None" using Cons.prems by force
  moreover have "\<forall>j<length pre. match_at U (False \<and> j = 0) (drop j (pre @ suf)) = None"
  proof (intro allI impI)
    fix j assume "j < length pre"
    then have "Suc j < length (c # pre)" by simp
    then have "match_at U (b \<and> Suc j = 0) (drop (Suc j) ((c # pre) @ suf)) = None"
      using Cons.prems by blast
    then show "match_at U (False \<and> j = 0) (drop j (pre @ suf)) = None" by simp
  qed
  ultimately show ?case using Cons.IH[of False] by simp
qed

lemma search_from_here:
  "match_at U b suf = Some r \<Longrightarrow> search_from U b suf = Some r"
  by (cases suf) simp_all

lemma symbol_search_leftmost:
  assumes ok: "tables_ok U" and occ: "occurs_at U s i code name"
    and first: "\<forall>j<i. \<forall>c n. \<not> occurs_at U s j c n"
  shows "symbol_search U s = Some (code, name)"
proof -
  have i: "i \<le> length s" using occ by (auto simp: occurs_at_def)
  have none: "\<forall>j<length (take i s). match_at U (True \<and> j = 0) (drop j (take i s @ drop i s)) = None"
  proof (intro allI impI)
    fix j assume "j < length (take i s)"
    then have j: "j < i" "j \<le> length s" using i by auto
    show "match_at U (True \<and> j = 0) (drop j (take i s @ drop i s)) = None"
    proof (rule ccontr)
      assume "match_at U (True \<and> j = 0) (drop j (take i s @ drop i s)) \<noteq> None"
      then obtain c n where "match_at U (j = 0) (drop j s) = Some (c, n)" by auto
      from match_at_sound[OF j(2) this] first j(1) show False by blast
    qed
  qed
  have "symbol_search U s = search_from U True (take i s @ drop i s)"
    by (simp add: symbol_search_def)
  also have "\<dots> = search_from U (True \<and> take i s = []) (drop i s)"
    by (rule search_from_skip[OF none])
  also have "(True \<and> take i s = []) = (i = 0)"
    using i by (cases s) auto
  also have "search_from U (i = 0) (drop i s) = Some (code, name)"
    by (rule search_from_here) (rule match_at_complete[OF ok occ])
  finally show ?thesis .
qed

lemma symbol_search_none:
  assumes "\<forall>j c n. \<not> occurs_at U s j c n"
  shows "symbol_search U s = None"
proof -
  have none: "match_at U (j = 0) (drop j s) = None" if "j \<le> length s" for j
  proof (rule ccontr)
    assume "match_at U (j = 0) (drop j s) \<noteq> None"
    then obtain c n where "match_at U (j = 0) (drop j s) = Some (c, n)" by auto
    from match_at_sound[OF that this] assms show False by blast
  qed
  have "\<forall>j<length s. match_at U (True \<and> j = 0) (drop j (s @ [])) = None"
    using none by simp
  from search_from_skip[OF this]
  have "symbol_search U s = search_from U (s = []) []"
    by (simp add: symbol_search_def)
  also have "\<dots> = match_at U (length s = 0) (drop (length s) s)" by simp
  also have "\<dots> = None" by (rule none) simp
  finally show ?thesis .
qed

lemma strip_id:
  assumes "xs \<noteq> []" "\<not> u_isspace U (hd xs)" "\<not> u_isspace U (last xs)"
  shows "strip U xs = xs"
proof -
  have a: "dropWhile (u_isspace U) xs = xs"
    using assms(1,2) by (cases xs) simp_all
  have "rev xs \<noteq> []" "\<not> u_isspace U (hd (rev xs))"
    using assms(1,3) by (simp_all add: hd_rev)
  then have b: "dropWhile (u_isspace U) (rev xs) = rev xs"
    by (cases "rev xs") simp_all
  show ?thesis unfolding strip_def a b by simp
qed

lemma pattern_body_code:
  assumes ok: "tables_ok U" and body: "pattern_body U t code name"
  shows "strip U code = code" and "strip U name = name"
    and "symbol_format U code" and "3 \<le> length code"
proof -
  obtain ds ls ws rest where t: "t = ds @ ls @ ws @ name @ rest" and code: "code = ds @ ls"
    and ds: "3 \<le> length ds" "length ds \<le> 6" "list_all (u_isdecimal U) ds"
    and ls: "list_all is_ascii_letter ls"
    and name: "name \<noteq> []" "list_all is_cjk name"
    using body unfolding pattern_body_def by blast
  have nsp: "\<not> u_isspace U c" if "c \<in> set code" for c
    using that ok ds(3) ls unfolding code tables_ok_def list_all_iff by auto
  have cne: "code \<noteq> []" using ds(1) code by auto
  then have "hd code \<in> set code" "last code \<in> set code" by simp_all
  then show "strip U code = code" using nsp cne by (intro strip_id) auto
  have nsp': "\<not> u_isspace U c" if "c \<in> set name" for c
    using that ok name(2) unfolding tables_ok_def list_all_iff by auto
  have "hd name \<in> set name" "last name \<in> set name" using name(1) by simp_all
  then show "strip U name = name" using nsp' name(1) by (intro strip_id) auto
  show "3 \<le> length code" using ds(1) code by simp
  have k: "length ds \<in> set [1..<Suc (length code)]" using ds(1) code by simp
  have m: "length ls \<in> set [0..<Suc (length code - length ds)]" using code by simp
  have inner: "list_all is_ascii_letter (take (length ls) (drop (length ds) code))
               \<and> at_end (drop (length ds + length ls) code)"
    using ls by (simp add: code at_end_def)
  have "list_ex (\<lambda>m. list_all is_ascii_letter (take m (drop (length ds) code))
                      \<and> at_end (drop (length ds + m) code))
          [0..<Suc (length code - length ds)]"
    unfolding list_ex_iff using m inner by (rule bexI[rotated])
  moreover have "list_all (u_isdecimal U) (take (length ds) code)"
    using ds(3) by (simp add: code)
  ultimately show "symbol_format U code"
    unfolding symbol_format_def list_ex_iff[of _ "[1..<Suc (length code)]"]
    using k by (intro bexI[of _ "length ds"] conjI)
qed

lemma valid_symbol_of_pattern:
  assumes "tables_ok U" "pattern_body U t code name"
  shows "is_valid_tw_stock_symbol U code = (4 \<le> length code \<and> length code \<le> 6)"
  using pattern_body_code(3,4)[OF assms]
  by (auto simp: is_valid_tw_stock_symbol_def)

lemma occurs_at_body:
  "occurs_at U s i code name \<Longrightarrow> \<exists>t. pattern_body U t code name"
  by (auto simp: occurs_at_def)

lemma tables_ok_ascii: "tables_ok ascii_tables"
  by (auto simp: tables_ok_def ascii_tables_def ascii_isdigit_def ascii_isspace_def
        is_ascii_letter_def is_cjk_def)

lemma cell_2330_occurs: "occurs_at ascii_tables cell_2330 0 (ascii ''2330'') [21488, 31309, 38651]"
proof -
  have "pattern_body ascii_tables cell_2330 (ascii ''2330'') [21488, 31309, 38651]"
    unfolding pattern_body_def
    by (intro exI[of _ "ascii ''2330''"] exI[of _ "[]"] exI[of _ "[32]"] exI[of _ "[]"])
       (simp add: cell_2330_def ascii_def ascii_tables_def ascii_isdigit_def
          ascii_isspace_def is_cjk_def)
  then show ?thesis by (simp add: occurs_at_def)
qed

text \<open>
  C5 (as amended). Take a cell string and the leftmost position at which the pattern
  occurs (start of the string or a white-space character, 3 to 6 decimal digits,
  ASCII letters, white space, a run of CJK ideographs that cannot be extended). Both
  extraction functions return the code and the name of that occurrence when the code
  has 4 to 6 characters, and nothing for the cell when it has 3 or more than 6; a cell
  in which the pattern occurs nowhere gives nothing. \<^verbatim>\<open>2330\<close> followed by a space and
  the name U+53F0 U+7A4D U+96FB gives the symbol \<^verbatim>\<open>2330\<close> and that name; the same name
  after \<^verbatim>\<open>AB\<close> gives nothing.
\<close>

theorem symbol_extraction_leftmost:
  assumes "tables_ok U"
  shows "(occurs_at U s i code name \<and> (\<forall>j<i. \<forall>c n. \<not> occurs_at U s j c n) \<longrightarrow>
            extract_symbol_from_header U [CStr s] =
              (if 4 \<le> length code \<and> length code \<le> 6
               then Some \<lparr>symbol = code, chinese_name = name, found_in = ascii ''header'',
                          column_index = 0, original_text = Some s\<rparr>
               else None)
            \<and> extract_symbol_from_data U [CStr s] =
              (if 4 \<le> length code \<and> length code \<le> 6
               then Some \<lparr>symbol = code, chinese_name = name, found_in = ascii ''data'',
                          column_index = 0, original_text = None\<rparr>
               else None))
       \<and> ((\<forall>j c n. \<not> occurs_at U s j c n) \<longrightarrow>
            extract_symbol_from_header U [CStr s] = None
            \<and> extract_symbol_from_data U [CStr s] = None)
       \<and> extract_symbol_from_header ascii_tables [CStr cell_2330] =
            Some \<lparr>symbol = ascii ''2330'', chinese_name = [21488, 31309, 38651],
                   found_in = ascii ''header'', column_index = 0,
                   original_text = Some cell_2330\<rparr>
       \<and> extract_symbol_from_header ascii_tables [CStr cell_AB] = None
       \<and> extract_symbol_from_data ascii_tables [CStr cell_AB] = None"
proof -
  have found: "extract_symbol_from_header U [CStr s] =
              (if 4 \<le> length code \<and> length code \<le> 6
               then Some \<lparr>symbol = code, chinese_name = name, found_in = ascii ''header'',
                          column_index = 0, original_text = Some s\<rparr>
               else None)
            \<and> extract_symbol_from_data U [CStr s] =
              (if 4 \<le> length code \<and> length code \<le> 6
               then Some \<lparr>symbol = code, chinese_name = name, found_in = ascii ''data'',
                          column_index = 0, original_text = None\<rparr>
               else None)"
    if occ: "occurs_at U s i code name" and first: "\<forall>j<i. \<forall>c n. \<not> occurs_at U s j c n"
  proof -
    obtain t where body: "pattern_body U t code name"
      using occurs_at_body[OF occ] by blast
    have search: "symbol_search U s = Some (code, name)"
      by (rule symbol_search_leftmost[OF assms occ first])
    show ?thesis
      unfolding extract_symbol_from_header_def extract_symbol_from_data_def
      by (simp add: search pattern_body_code(1,2)[OF assms body]
            valid_symbol_of_pattern[OF assms body])
  qed
  have no_match: "extract_symbol_from_header U [CStr s] = None
            \<and> extract_symbol_from_data U [CStr s] = None"
    if "\<forall>j c n. \<not> occurs_at U s j c n"
    unfolding extract_symbol_from_header_def extract_symbol_from_data_def
    by (simp add: symbol_search_none[OF that])
  have ex1: "extract_symbol_from_header ascii_tables [CStr cell_2330] =
            Some \<lparr>symbol = ascii ''2330'', chinese_name = [21488, 31309, 38651],
                   found_in = ascii ''header'', column_index = 0,
                   original_text = Some cell_2330\<rparr>"
    by (simp add: cell_2330_def search_eval)
  have ex2: "extract_symbol_from_header ascii_tables [CStr cell_AB] = None"
    "extract_symbol_from_data ascii_tables [CStr cell_AB] = None"
    by (simp_all add: cell_AB_def search_eval extract_symbol_from_data_def)
  have a: "occurs_at U s i code name \<and> (\<forall>j<i. \<forall>c n. \<not> occurs_at U s j c n) \<longrightarrow>
            extract_symbol_from_header U [CStr s] =
              (if 4 \<le> length code \<and> length code \<le> 6
               then Some \<lparr>symbol = code, chinese_name = name, found_in = ascii ''header'',
                          column_index = 0, original_text = Some s\<rparr>
               else None)
            \<and> extract_symbol_from_data U [CStr s] =
              (if 4 \<le> length code \<and> length code \<le> 6
               then Some \<lparr>symbol = code, chinese_name = name, found_in = ascii ''data'',
                          column_index = 0, original_text = None\<rparr>
               else None)"
  proof (rule impI)
    assume h: "occurs_at U s i code name \<and> (\<forall>j<i. \<forall>c n. \<not> occurs_at U s j c n)"
    show "extract_symbol_from_header U [CStr s] =
              (if 4 \<le> length code \<and> length code \<le> 6
               then Some \<lparr>symbol = code, chinese_name = name, found_in = ascii ''header'',
                          column_index = 0, original_text = Some s\<rparr>
               else None)
            \<and> extract_symbol_from_data U [CStr s] =
              (if 4 \<le> length code \<and> length code \<le> 6
               then Some \<lparr>symbol = code, chinese_name = name, found_in = ascii ''data'',
                          column_index = 0, original_text = None\<rparr>
               else None)"
      using found h by simp
  qed
  have b: "(\<forall>j c n. \<not> occurs_at U s j c n) \<longrightarrow>
            extract_symbol_from_header U [CStr s] = None
            \<and> extract_symbol_from_data U [CStr s] = None"
  proof (rule impI)
    assume h: "\<forall>j c n. \<not> occurs_at U s j c n"
    show "extract_symbol_from_header U [CStr s] = None
            \<and> extract_symbol_from_data U [CStr s] = None"
      using no_match h by simp
  qed
  from a b ex1 ex2 show ?thesis by (intro conjI)
qed

text \<open>
  The claim as stated fails for a three-digit code: the pattern matches, the validity
  check of the symbol rejects it.
\<close>

theorem symbol_extraction_counterexample:
  "symbol_search ascii_tables cell_123 = Some (ascii ''123'', [21488, 31309, 38651])
   \<and> extract_symbol_from_header ascii_tables [CStr cell_123] = None
   \<and> extract_symbol_from_data ascii_tables [CStr cell_123] = None"
  by (simp add: cell_123_def search_eval extract_symbol_from_data_def)

theorem symbol_extraction_leftmost_witness:
  "tables_ok ascii_tables
   \<and> occurs_at ascii_tables cell_2330 0 (ascii ''2330'') [21488, 31309, 38651]
   \<and> extract_symbol_from_data ascii_tables [CStr cell_2330] =
        Some \<lparr>symbol = ascii ''2330'', chinese_name = [21488, 31309, 38651],
               found_in = ascii ''data'', column_index = 0, original_text = None\<rparr>"
proof -
  have len: "4 \<le> length (ascii ''2330'') \<and> length (ascii ''2330'') \<le> 6"
    by (simp add: ascii_def)
  from symbol_extraction_leftmost[OF tables_ok_ascii, of cell_2330 0 "ascii ''2330''"
      "[21488, 31309, 38651]"] cell_2330_occurs len
  have "extract_symbol_from_data ascii_tables [CStr cell_2330] =
        Some \<lparr>symbol = ascii ''2330'', chinese_name = [21488, 31309, 38651],
               found_in = ascii ''data'', column_index = 0, original_text = None\<rparr>"
    by simp
  with tables_ok_ascii cell_2330_occurs show ?thesis by blast
qed

section \<open>Properties of the aggregation\<close>

lemma int64_exact: "- (2 ^ 63) \<le> x \<Longrightarrow> x < 2 ^ 63 \<Longrightarrow> int64 x = x"
  by (simp add: int64_def)

lemma int64_range: "- (2 ^ 63) \<le> int64 x \<and> int64 x < 2 ^ 63"
proof -
  have "0 \<le> (x + 2 ^ 63) mod 2 ^ 64" "(x + 2 ^ 63) mod 2 ^ 64 < (2 ^ 64 :: int)"
    by simp_all
  then show ?thesis by (simp add: int64_def)
qed

lemma int64_idem: "int64 (int64 x) = int64 x"
  using int64_range[of x] by (simp add: int64_exact)

lemma int64_minus_zero: "int64 (int64 x - 0) = int64 x"
  by (simp add: int64_idem)

lemma spacing_small: "a < 2 ^ 53 \<Longrightarrow> spacing a = 1"
  by (subst spacing.simps) simp

lemma float64_small: "\<bar>x\<bar> < 2 ^ 53 \<Longrightarrow> float64 x = x"
  by (simp add: float64_def spacing_small Let_def mult_sgn_abs)




lemma shifted_value_None: "shifted_value None = 0"
  by (simp add: shifted_value_def astype_int_def)


lemma group_lags_Cons:
  "group_lags hist (x # rest) =
     mk_row x (hist (grp x)) # group_lags (hist(grp x := snd x # hist (grp x))) rest"
proof -
  obtain d s c v where x: "x = ((d, s, c), v)" by (metis prod.collapse)
  show ?thesis unfolding x by (simp add: mk_row_def grp_def dt_def Let_def)
qed

lemma length_group_lags: "length (group_lags hist L) = length L"
  by (induction L arbitrary: hist) (simp_all add: group_lags_Cons)

lemma group_lags_nth:
  "i < length L \<Longrightarrow>
   group_lags hist L ! i =
     mk_row (L ! i)
       (rev (map snd (filter (\<lambda>e. grp e = grp (L ! i)) (take i L))) @ hist (grp (L ! i)))"
proof (induction L arbitrary: hist i)
  case Nil
  then show ?case by simp
next
  case (Cons x L)
  show ?case
  proof (cases i)
    case 0
    then show ?thesis by (simp add: group_lags_Cons)
  next
    case (Suc j)
    then have j: "j < length L" using Cons.prems by simp
    define hist' where "hist' = hist(grp x := snd x # hist (grp x))"
    have "group_lags hist (x # L) ! i = group_lags hist' L ! j"
      unfolding group_lags_Cons hist'_def Suc by simp
    also have "\<dots> = mk_row (L ! j)
       (rev (map snd (filter (\<lambda>e. grp e = grp (L ! j)) (take j L))) @ hist' (grp (L ! j)))"
      by (rule Cons.IH[OF j])
    also have "rev (map snd (filter (\<lambda>e. grp e = grp (L ! j)) (take j L))) @ hist' (grp (L ! j))
        = rev (map snd (filter (\<lambda>e. grp e = grp ((x # L) ! i)) (take i (x # L))))
            @ hist (grp ((x # L) ! i))"
      unfolding hist'_def Suc by simp
    finally show ?thesis unfolding Suc by simp
  qed
qed

lemma earlier_in_group:
  assumes "group_ordered L" "i < length L"
  shows "filter (\<lambda>e. grp e = grp (L ! i)) (take i L)
         = filter (\<lambda>e. grp e = grp (L ! i) \<and> dt e < dt (L ! i)) L"
proof -
  let ?x = "L ! i"
  let ?P = "\<lambda>e. grp e = grp ?x \<and> dt e < dt ?x"
  have L: "L = take i L @ ?x # drop (Suc i) L"
    using assms(2) by (rule id_take_nth_drop)
  have sw: "sorted_wrt (\<lambda>a b. grp a = grp b \<longrightarrow> dt a < dt b) (take i L @ ?x # drop (Suc i) L)"
    using assms(1) L unfolding group_ordered_def by simp
  have before: "\<forall>e \<in> set (take i L). grp e = grp ?x \<longrightarrow> dt e < dt ?x"
    using sw by (auto simp: sorted_wrt_append)
  have after: "\<forall>e \<in> set (drop (Suc i) L). grp e = grp ?x \<longrightarrow> dt ?x < dt e"
    using sw by (auto simp: sorted_wrt_append)
  have 1: "filter ?P (take i L) = filter (\<lambda>e. grp e = grp ?x) (take i L)"
    by (rule filter_cong[OF refl]) (use before in blast)
  have 2: "filter ?P (drop (Suc i) L) = []"
    unfolding filter_empty_conv using after by force
  have "filter ?P L = filter ?P (take i L @ ?x # drop (Suc i) L)"
    using L by simp
  also have "\<dots> = filter ?P (take i L)"
    using 2 by simp
  finally show ?thesis using 1 by simp
qed

lemma group_dates_increasing:
  assumes "group_ordered L"
  shows "sorted_wrt (<) (map dt (filter (\<lambda>e. grp e = g \<and> dt e < d) L))"
proof -
  let ?F = "filter (\<lambda>e. grp e = g \<and> dt e < d) L"
  have "sorted_wrt (\<lambda>a b. grp a = grp b \<longrightarrow> dt a < dt b) ?F"
    using assms unfolding group_ordered_def by (rule sorted_wrt_filter)
  then have "sorted_wrt (\<lambda>a b. dt a < dt b) ?F"
    by (rule sorted_wrt_mono_rel[rotated]) auto
  then show ?thesis by (simp add: sorted_wrt_map)
qed

lemma last_is_Max:
  fixes M :: "int list"
  assumes "sorted_wrt (<) M" "M \<noteq> []"
  shows "last M = Max (set M)"
proof -
  have "\<forall>x \<in> set M. x \<le> last M"
    using assms
  proof (induction M)
    case Nil
    then show ?case by simp
  next
    case (Cons a M)
    then show ?case by (cases "M = []") (auto simp: less_imp_le)
  qed
  moreover have "last M \<in> set M" using assms(2) by simp
  ultimately show ?thesis by (intro Max_eqI[symmetric]) auto
qed

lemma sorted_distinct_group_ordered:
  assumes "sorted (map f L)" "distinct (map fst L)"
    and "\<And>a b. f a \<le> f b \<Longrightarrow> fst a \<noteq> fst b \<Longrightarrow> grp a = grp b \<Longrightarrow> dt a < dt b"
  shows "group_ordered L"
  using assms(1,2)
proof (induction L)
  case Nil
  then show ?case by (simp add: group_ordered_def)
next
  case (Cons x L)
  have "\<forall>y \<in> set L. grp x = grp y \<longrightarrow> dt x < dt y"
  proof (intro ballI impI)
    fix y assume y: "y \<in> set L" and g: "grp x = grp y"
    have "f x \<le> f y" using Cons.prems(1) y by auto
    moreover have "fst x \<noteq> fst y" using Cons.prems(2) y by auto
    ultimately show "dt x < dt y" using g by (rule assms(3))
  qed
  moreover have "group_ordered L" using Cons by simp
  ultimately show ?case by (simp add: group_ordered_def)
qed

lemma groupby_sum_keys:
  "distinct (map fst (groupby_sum xs))"
  "set (groupby_sum xs)
     = (\<lambda>k. (k, int64 (sum_list (map snd (filter (\<lambda>x. fst x = k) xs))))) ` fst ` set xs"
  by (simp_all add: groupby_sum_def comp_def)

lemma hist_cases:
  fixes h :: "int list"
  shows "h = [] \<Longrightarrow> shifted_value (case h of [] \<Rightarrow> None | a # _ \<Rightarrow> Some a) = 0"
    and "h \<noteq> [] \<Longrightarrow> shifted_value (case h of [] \<Rightarrow> None | a # _ \<Rightarrow> Some a)
                       = shifted_value (Some (hd h))"
    and "length h \<le> 1 \<Longrightarrow> shifted_value (case h of a # b # _ \<Rightarrow> Some b | _ \<Rightarrow> None) = 0"
  by (cases h; cases "tl h"; simp add: shifted_value_None)+

text \<open>
  The value the shift gives for the session before a date: a gap when the contract
  has no earlier session, otherwise the \<^verbatim>\<open>int64\<close> sum of the latest earlier session.
\<close>

lemma lags_row_spec:
  assumes go: "group_ordered L"
    and setL: "set L = (\<lambda>k. (k, int64 (sum_list (map snd (filter (\<lambda>x. fst x = k) xs))))) ` fst ` set xs"
    and i: "i < length L"
  defines "r \<equiv> group_lags (\<lambda>g. []) L ! i"
  shows "(a_date r, a_strike r, a_cp r) \<in> fst ` set xs"
    and "OI r = int64 (total_oi xs (a_date r) (a_strike r) (a_cp r))"
    and "OI_prev1 r =
           shifted_value
             (if sessions_before xs (a_strike r) (a_cp r) (a_date r) = {} then None
              else Some (int64 (total_oi xs
                     (Max (sessions_before xs (a_strike r) (a_cp r) (a_date r)))
                     (a_strike r) (a_cp r))))"
    and "delta_1 r = int64 (OI r - OI_prev1 r)"
    and "delta_2 r = int64 (OI r - OI_prev2 r)"
    and "card (sessions_before xs (a_strike r) (a_cp r) (a_date r)) \<le> 1 \<Longrightarrow> OI_prev2 r = 0"
proof -
  obtain d s c v where x: "L ! i = ((d, s, c), v)" by (metis prod.collapse)
  let ?F = "filter (\<lambda>e. grp e = (s, c) \<and> dt e < d) L"
  let ?h = "rev (map snd ?F)"
  have gx: "grp (L ! i) = (s, c)" "dt (L ! i) = d" by (simp_all add: x grp_def dt_def)
  have "filter (\<lambda>e. grp e = grp (L ! i)) (take i L) = ?F"
    using earlier_in_group[OF go i] by (simp add: gx)
  then have r: "r = mk_row (L ! i) ?h"
    unfolding r_def using group_lags_nth[OF i, of "\<lambda>g. []"] by simp
  have fields: "a_date r = d" "a_strike r = s" "a_cp r = c" "OI r = v"
    by (simp_all add: r mk_row_def x grp_def dt_def)
  have mem: "e \<in> set L \<longleftrightarrow> fst e \<in> fst ` set xs
              \<and> snd e = int64 (sum_list (map snd (filter (\<lambda>x. fst x = fst e) xs)))" for e
    unfolding setL by (cases e) auto
  have xin: "L ! i \<in> set L" using i by simp
  show "(a_date r, a_strike r, a_cp r) \<in> fst ` set xs"
    using xin mem[of "L ! i"] by (simp add: fields x)
  show "OI r = int64 (total_oi xs (a_date r) (a_strike r) (a_cp r))"
    using xin mem[of "L ! i"] by (simp add: fields x total_oi_def)
  show "delta_1 r = int64 (OI r - OI_prev1 r)" "delta_2 r = int64 (OI r - OI_prev2 r)"
    by (simp_all add: r mk_row_def)
  have dates: "set (map dt ?F) = sessions_before xs s c d"
  proof (intro set_eqI iffI)
    fix d' assume "d' \<in> set (map dt ?F)"
    then obtain e where e: "e \<in> set L" "grp e = (s, c)" "dt e < d" "d' = dt e" by auto
    have "fst e = (d', s, c)" using e(2,4) by (simp add: grp_def dt_def prod_eq_iff)
    then show "d' \<in> sessions_before xs s c d"
      using e mem[of e] by (simp add: sessions_before_def)
  next
    fix d' assume "d' \<in> sessions_before xs s c d"
    then have k: "(d', s, c) \<in> fst ` set xs" "d' < d" by (simp_all add: sessions_before_def)
    let ?e = "((d', s, c), int64 (sum_list (map snd (filter (\<lambda>x. fst x = (d', s, c)) xs))))"
    have "?e \<in> set L" using k(1) mem[of ?e] by simp
    moreover have "grp ?e = (s, c)" "dt ?e = d'" by (simp_all add: grp_def dt_def)
    ultimately have "?e \<in> set ?F" using k(2) by simp
    then have "dt ?e \<in> dt ` set ?F" by (rule imageI)
    then have "dt ?e \<in> set (map dt ?F)" by (simp only: set_map)
    then show "d' \<in> set (map dt ?F)" by (simp add: dt_def)
  qed
  have inc: "sorted_wrt (<) (map dt ?F)" by (rule group_dates_increasing[OF go])
  have prev1: "OI_prev1 r = shifted_value (case ?h of [] \<Rightarrow> None | a # _ \<Rightarrow> Some a)"
    and prev2: "OI_prev2 r = shifted_value (case ?h of a # b # _ \<Rightarrow> Some b | _ \<Rightarrow> None)"
    by (simp_all add: r mk_row_def)
  show "OI_prev1 r =
           shifted_value
             (if sessions_before xs (a_strike r) (a_cp r) (a_date r) = {} then None
              else Some (int64 (total_oi xs
                     (Max (sessions_before xs (a_strike r) (a_cp r) (a_date r)))
                     (a_strike r) (a_cp r))))"
  proof (cases "?F = []")
    case True
    then have "set (map dt ?F) = {}" by (simp only: set_empty map_is_Nil_conv)
    then have "sessions_before xs s c d = {}" unfolding dates .
    then show ?thesis
      using True by (simp add: prev1 fields)
  next
    case False
    then have "set (map dt ?F) \<noteq> {}" by (simp only: set_empty map_is_Nil_conv not_False_eq_True)
    then have ne: "sessions_before xs s c d \<noteq> {}" unfolding dates .
    have hd: "shifted_value (case ?h of [] \<Rightarrow> None | a # _ \<Rightarrow> Some a)
                = shifted_value (Some (snd (last ?F)))"
      using False hist_cases(2)[of ?h] by (simp add: hd_rev last_map)
    have "dt (last ?F) = last (map dt ?F)" using False by (simp add: last_map)
    also have "\<dots> = Max (set (map dt ?F))"
      by (rule last_is_Max[OF inc]) (use False in simp)
    finally have dl: "dt (last ?F) = Max (sessions_before xs s c d)" using dates by simp
    have lin: "last ?F \<in> set ?F" using False by (rule last_in_set)
    then have gl: "grp (last ?F) = (s, c)" and ll: "last ?F \<in> set L" by simp_all
    have "fst (last ?F) = (Max (sessions_before xs s c d), s, c)"
      using gl dl by (simp add: grp_def dt_def prod_eq_iff)
    then have "snd (last ?F) = int64 (total_oi xs (Max (sessions_before xs s c d)) s c)"
      using ll mem[of "last ?F"] by (simp add: total_oi_def)
    then show ?thesis
      using ne by (simp add: prev1 hd fields)
  qed
  show "OI_prev2 r = 0" if "card (sessions_before xs (a_strike r) (a_cp r) (a_date r)) \<le> 1"
  proof -
    have "distinct (map dt ?F)" using inc by (simp add: strict_sorted_iff)
    then have "card (set (map dt ?F)) = length (map dt ?F)" by (rule distinct_card)
    then have "length ?h \<le> 1" using that dates by (simp add: fields)
    then show ?thesis using hist_cases(3)[of ?h] by (simp add: prev2)
  qed
qed

lemma distinct_map_insort_key:
  "distinct (map g (insort_key f x xs)) = distinct (map g (x # xs))"
  by (induction xs) (auto simp: set_insort_key)

lemma distinct_map_sort_key:
  "distinct (map g (sort_key f xs)) = distinct (map g xs)"
  by (induction xs) (simp_all add: distinct_map_insort_key)

lemma sorted_groups_ordered:
  assumes "\<And>a b. f a \<le> f b \<Longrightarrow> fst a \<noteq> fst b \<Longrightarrow> grp a = grp b \<Longrightarrow> dt a < dt b"
  shows "group_ordered (sort_key f (groupby_sum xs))"
proof (rule sorted_distinct_group_ordered[where f = f])
  show "sorted (map f (sort_key f (groupby_sum xs)))" by (rule sorted_sort_key)
  show "distinct (map fst (sort_key f (groupby_sum xs)))"
    by (simp add: distinct_map_sort_key groupby_sum_keys(1))
qed (rule assms)

lemma lags_rows:
  assumes ord: "\<And>a b. f a \<le> f b \<Longrightarrow> fst a \<noteq> fst b \<Longrightarrow> grp a = grp b \<Longrightarrow> dt a < dt b"
    and r: "r \<in> set (group_lags (\<lambda>g. []) (sort_key f (groupby_sum xs)))"
  shows "row_key r \<in> fst ` set xs"
    and "OI r = int64 (total_oi xs (a_date r) (a_strike r) (a_cp r))"
    and "OI_prev1 r =
           shifted_value
             (if sessions_before xs (a_strike r) (a_cp r) (a_date r) = {} then None
              else Some (int64 (total_oi xs
                     (Max (sessions_before xs (a_strike r) (a_cp r) (a_date r)))
                     (a_strike r) (a_cp r))))"
    and "delta_1 r = int64 (OI r - OI_prev1 r)"
    and "delta_2 r = int64 (OI r - OI_prev2 r)"
    and "card (sessions_before xs (a_strike r) (a_cp r) (a_date r)) \<le> 1 \<Longrightarrow> OI_prev2 r = 0"
proof -
  let ?L = "sort_key f (groupby_sum xs)"
  obtain i where i: "i < length ?L" and ri: "r = group_lags (\<lambda>g. []) ?L ! i"
    using r by (auto simp: in_set_conv_nth length_group_lags)
  have go: "group_ordered ?L" by (rule sorted_groups_ordered[OF ord])
  have setL: "set ?L = (\<lambda>k. (k, int64 (sum_list (map snd (filter (\<lambda>x. fst x = k) xs))))) ` fst ` set xs"
    by (simp add: groupby_sum_keys(2))
  note spec = lags_row_spec[OF go setL i, folded ri]
  show "row_key r \<in> fst ` set xs" using spec(1) by (simp add: row_key_def)
  show "OI r = int64 (total_oi xs (a_date r) (a_strike r) (a_cp r))" by (rule spec(2))
  show "OI_prev1 r =
           shifted_value
             (if sessions_before xs (a_strike r) (a_cp r) (a_date r) = {} then None
              else Some (int64 (total_oi xs
                     (Max (sessions_before xs (a_strike r) (a_cp r) (a_date r)))
                     (a_strike r) (a_cp r))))" by (rule spec(3))
  show "delta_1 r = int64 (OI r - OI_prev1 r)" by (rule spec(4))
  show "delta_2 r = int64 (OI r - OI_prev2 r)" by (rule spec(5))
  show "card (sessions_before xs (a_strike r) (a_cp r) (a_date r)) \<le> 1 \<Longrightarrow> OI_prev2 r = 0"
    by (rule spec(6))
qed

lemma lags_keys:
  "map row_key (group_lags hist L) = map fst L"
proof (induction L arbitrary: hist)
  case Nil
  then show ?case by simp
next
  case (Cons x L)
  have "row_key (mk_row x (hist (grp x))) = fst x"
    by (simp add: row_key_def mk_row_def dt_def grp_def)
  then show ?case using Cons by (simp add: group_lags_Cons)
qed

lemma loader_unfold:
  "load_and_process_agg df2 =
     group_lags (\<lambda>g. []) (sort_key (\<lambda>((d, s, c), v). (s, c, d)) (groupby_sum (loader_input df2)))"
  by (simp add: load_and_process_agg_def loader_input_def)

lemma txo_unfold:
  "aggregate_daily_from_df df =
     group_lags (\<lambda>g. []) (sort_key (\<lambda>((d, s, c), v). (d, s, c)) (groupby_sum (txo_input df)))"
proof (cases "df = []")
  case True
  then show ?thesis
    by (simp add: aggregate_daily_from_df_def txo_input_def select_session_def groupby_sum_def)
next
  case False
  then show ?thesis by (simp add: aggregate_daily_from_df_def txo_input_def)
qed

lemma loader_keys:
  "distinct (map row_key (load_and_process_agg df2))"
  "set (map row_key (load_and_process_agg df2)) = fst ` set (loader_input df2)"
  "sorted (map (\<lambda>r. (a_strike r, a_cp r, a_date r)) (load_and_process_agg df2))"
proof -
  let ?f = "\<lambda>((d, s, c), v). (s, c, d) :: rat \<times> ustr \<times> int"
  let ?L = "sort_key ?f (groupby_sum (loader_input df2))"
  have k: "map row_key (load_and_process_agg df2) = map fst ?L"
    unfolding loader_unfold by (rule lags_keys)
  show "distinct (map row_key (load_and_process_agg df2))"
    unfolding k by (simp add: distinct_map_sort_key groupby_sum_keys(1))
  show "set (map row_key (load_and_process_agg df2)) = fst ` set (loader_input df2)"
    unfolding k by (simp add: groupby_sum_keys(2) image_image)
  have "map (\<lambda>r. (a_strike r, a_cp r, a_date r)) (load_and_process_agg df2)
        = map ((\<lambda>(d, s, c). (s, c, d)) \<circ> row_key) (load_and_process_agg df2)"
    by (simp add: row_key_def)
  also have "\<dots> = map (\<lambda>(d, s, c). (s, c, d)) (map fst ?L)"
    unfolding k[symmetric] by simp
  also have "\<dots> = map ?f ?L"
    by (simp add: case_prod_beta)
  finally show "sorted (map (\<lambda>r. (a_strike r, a_cp r, a_date r)) (load_and_process_agg df2))"
    by (simp only: sorted_sort_key)
qed

lemma txo_keys:
  "distinct (map row_key (aggregate_daily_from_df df))"
  "set (map row_key (aggregate_daily_from_df df)) = fst ` set (txo_input df)"
proof -
  let ?f = "\<lambda>((d, s, c), v). (d, s, c) :: int \<times> rat \<times> ustr"
  let ?L = "sort_key ?f (groupby_sum (txo_input df))"
  have k: "map row_key (aggregate_daily_from_df df) = map fst ?L"
    unfolding txo_unfold by (rule lags_keys)
  show "distinct (map row_key (aggregate_daily_from_df df))"
    unfolding k by (simp add: distinct_map_sort_key groupby_sum_keys(1))
  show "set (map row_key (aggregate_daily_from_df df)) = fst ` set (txo_input df)"
    unfolding k by (simp add: groupby_sum_keys(2) image_image)
qed

lemmas agg_eval =
  groupby_sum_def int64_def shifted_value_def astype_int_def float64_small ascii_def Let_def

lemma sample_loader: "load_and_process_agg sample_df2 = sample_out"
  by (simp add: load_and_process_agg_def sample_df2_def sample_out_def agg_eval)


lemma loader_rows:
  assumes "r \<in> set (load_and_process_agg df2)"
  shows "row_key r \<in> fst ` set (loader_input df2)"
    and "OI r = int64 (total_oi (loader_input df2) (a_date r) (a_strike r) (a_cp r))"
    and "OI_prev1 r =
           shifted_value
             (if sessions_before (loader_input df2) (a_strike r) (a_cp r) (a_date r) = {}
              then None
              else Some (int64 (total_oi (loader_input df2)
                     (Max (sessions_before (loader_input df2) (a_strike r) (a_cp r) (a_date r)))
                     (a_strike r) (a_cp r))))"
    and "delta_1 r = int64 (OI r - OI_prev1 r)"
    and "delta_2 r = int64 (OI r - OI_prev2 r)"
    and "card (sessions_before (loader_input df2) (a_strike r) (a_cp r) (a_date r)) \<le> 1
           \<Longrightarrow> OI_prev2 r = 0"
proof -
  let ?f = "\<lambda>((d, s, c), v). (s, c, d) :: rat \<times> ustr \<times> int"
  have r: "r \<in> set (group_lags (\<lambda>g. []) (sort_key ?f (groupby_sum (loader_input df2))))"
    using assms by (simp only: loader_unfold)
  have ord: "dt a < dt b" if "?f a \<le> ?f b" "fst a \<noteq> fst b" "grp a = grp b" for a b
    using that by (auto simp: grp_def dt_def split: prod.splits)
  note s = lags_rows[of ?f, OF ord r]
  show "row_key r \<in> fst ` set (loader_input df2)" by (rule s(1))
  show "OI r = int64 (total_oi (loader_input df2) (a_date r) (a_strike r) (a_cp r))"
    by (rule s(2))
  show "OI_prev1 r =
           shifted_value
             (if sessions_before (loader_input df2) (a_strike r) (a_cp r) (a_date r) = {}
              then None
              else Some (int64 (total_oi (loader_input df2)
                     (Max (sessions_before (loader_input df2) (a_strike r) (a_cp r) (a_date r)))
                     (a_strike r) (a_cp r))))"
    by (rule s(3))
  show "delta_1 r = int64 (OI r - OI_prev1 r)" by (rule s(4))
  show "delta_2 r = int64 (OI r - OI_prev2 r)" by (rule s(5))
  show "card (sessions_before (loader_input df2) (a_strike r) (a_cp r) (a_date r)) \<le> 1
           \<Longrightarrow> OI_prev2 r = 0" by (rule s(6))
qed

lemma txo_rows:
  assumes "r \<in> set (aggregate_daily_from_df df)"
  shows "row_key r \<in> fst ` set (txo_input df)"
    and "OI r = int64 (total_oi (txo_input df) (a_date r) (a_strike r) (a_cp r))"
    and "OI_prev1 r =
           shifted_value
             (if sessions_before (txo_input df) (a_strike r) (a_cp r) (a_date r) = {}
              then None
              else Some (int64 (total_oi (txo_input df)
                     (Max (sessions_before (txo_input df) (a_strike r) (a_cp r) (a_date r)))
                     (a_strike r) (a_cp r))))"
    and "delta_1 r = int64 (OI r - OI_prev1 r)"
    and "delta_2 r = int64 (OI r - OI_prev2 r)"
    and "card (sessions_before (txo_input df) (a_strike r) (a_cp r) (a_date r)) \<le> 1
           \<Longrightarrow> OI_prev2 r = 0"
proof -
  let ?f = "\<lambda>((d, s, c), v). (d, s, c) :: int \<times> rat \<times> ustr"
  have r: "r \<in> set (group_lags (\<lambda>g. []) (sort_key ?f (groupby_sum (txo_input df))))"
    using assms by (simp only: txo_unfold)
  have ord: "dt a < dt b" if "?f a \<le> ?f b" "fst a \<noteq> fst b" "grp a = grp b" for a b
    using that by (auto simp: grp_def dt_def split: prod.splits)
  note s = lags_rows[of ?f, OF ord r]
  show "row_key r \<in> fst ` set (txo_input df)" by (rule s(1))
  show "OI r = int64 (total_oi (txo_input df) (a_date r) (a_strike r) (a_cp r))"
    by (rule s(2))
  show "OI_prev1 r =
           shifted_value
             (if sessions_before (txo_input df) (a_strike r) (a_cp r) (a_date r) = {}
              then None
              else Some (int64 (total_oi (txo_input df)
                     (Max (sessions_before (txo_input df) (a_strike r) (a_cp r) (a_date r)))
                     (a_strike r) (a_cp r))))"
    by (rule s(3))
  show "delta_1 r = int64 (OI r - OI_prev1 r)" by (rule s(4))
  show "delta_2 r = int64 (OI r - OI_prev2 r)" by (rule s(5))
  show "card (sessions_before (txo_input df) (a_strike r) (a_cp r) (a_date r)) \<le> 1
           \<Longrightarrow> OI_prev2 r = 0" by (rule s(6))
qed

lemma first_sessions:
  assumes o: "OI r = int64 t"
    and p1: "OI_prev1 r =
           shifted_value
             (if sessions_before xs (a_strike r) (a_cp r) (a_date r) = {} then None
              else Some u)"
    and d1: "delta_1 r = int64 (OI r - OI_prev1 r)"
    and d2: "delta_2 r = int64 (OI r - OI_prev2 r)"
    and z2: "card (sessions_before xs (a_strike r) (a_cp r) (a_date r)) \<le> 1 \<Longrightarrow> OI_prev2 r = 0"
  shows "(sessions_before xs (a_strike r) (a_cp r) (a_date r) = {}
          \<longrightarrow> OI_prev1 r = 0 \<and> OI_prev2 r = 0 \<and> delta_1 r = OI r \<and> delta_2 r = OI r)
     \<and> (card (sessions_before xs (a_strike r) (a_cp r) (a_date r)) \<le> 1
          \<longrightarrow> OI_prev2 r = 0 \<and> delta_2 r = OI r)"
proof (intro conjI impI)
  have same: "int64 (OI r - 0) = OI r"
    unfolding o by (rule int64_minus_zero)
  {
    assume e: "sessions_before xs (a_strike r) (a_cp r) (a_date r) = {}"
    then have c: "card (sessions_before xs (a_strike r) (a_cp r) (a_date r)) \<le> 1" by simp
    show z1: "OI_prev1 r = 0" using p1 e by (simp add: shifted_value_None)
    show "OI_prev2 r = 0" using z2[OF c] .
    show "delta_1 r = OI r" using d1 z1 same by simp
    show "delta_2 r = OI r" using d2 z2[OF c] same by simp
  }
  {
    assume c: "card (sessions_before xs (a_strike r) (a_cp r) (a_date r)) \<le> 1"
    show "OI_prev2 r = 0" using z2[OF c] .
    show "delta_2 r = OI r" using d2 z2[OF c] same by simp
  }
qed








lemma sample_sessions:
  "sessions_before (loader_input sample_df2) 17000 (ascii ''C'') 2 = {1}"
  "sessions_before (loader_input sample_df2) 17000 (ascii ''C'') 1 = {}"
  by (auto simp: sessions_before_def loader_input_def sample_df2_def)













text \<open>
  C10. In both aggregation functions the row of a contract's earliest session is
  kept, its previous-session values are 0 and both of its deltas equal its open
  interest; for a row with at most one earlier session of the contract (the first two
  sessions) the value two sessions back is 0 and the 2-session delta equals the open
  interest.
\<close>

theorem first_session_filled_with_zero:
  "(\<forall>r \<in> set (load_and_process_agg df2).
       (sessions_before (loader_input df2) (a_strike r) (a_cp r) (a_date r) = {}
          \<longrightarrow> OI_prev1 r = 0 \<and> OI_prev2 r = 0 \<and> delta_1 r = OI r \<and> delta_2 r = OI r)
     \<and> (card (sessions_before (loader_input df2) (a_strike r) (a_cp r) (a_date r)) \<le> 1
          \<longrightarrow> OI_prev2 r = 0 \<and> delta_2 r = OI r))
   \<and> row_key ` set (load_and_process_agg df2) = fst ` set (loader_input df2)
   \<and> (\<forall>r \<in> set (aggregate_daily_from_df df).
       (sessions_before (txo_input df) (a_strike r) (a_cp r) (a_date r) = {}
          \<longrightarrow> OI_prev1 r = 0 \<and> OI_prev2 r = 0 \<and> delta_1 r = OI r \<and> delta_2 r = OI r)
     \<and> (card (sessions_before (txo_input df) (a_strike r) (a_cp r) (a_date r)) \<le> 1
          \<longrightarrow> OI_prev2 r = 0 \<and> delta_2 r = OI r))
   \<and> row_key ` set (aggregate_daily_from_df df) = fst ` set (txo_input df)"
proof -
  have a: "\<forall>r \<in> set (load_and_process_agg df2).
       (sessions_before (loader_input df2) (a_strike r) (a_cp r) (a_date r) = {}
          \<longrightarrow> OI_prev1 r = 0 \<and> OI_prev2 r = 0 \<and> delta_1 r = OI r \<and> delta_2 r = OI r)
     \<and> (card (sessions_before (loader_input df2) (a_strike r) (a_cp r) (a_date r)) \<le> 1
          \<longrightarrow> OI_prev2 r = 0 \<and> delta_2 r = OI r)"
  proof
    fix r assume r: "r \<in> set (load_and_process_agg df2)"
    show "(sessions_before (loader_input df2) (a_strike r) (a_cp r) (a_date r) = {}
          \<longrightarrow> OI_prev1 r = 0 \<and> OI_prev2 r = 0 \<and> delta_1 r = OI r \<and> delta_2 r = OI r)
     \<and> (card (sessions_before (loader_input df2) (a_strike r) (a_cp r) (a_date r)) \<le> 1
          \<longrightarrow> OI_prev2 r = 0 \<and> delta_2 r = OI r)"
      by (rule first_sessions[OF loader_rows(2,3,4,5,6)[OF r]])
  qed
  have b: "\<forall>r \<in> set (aggregate_daily_from_df df).
       (sessions_before (txo_input df) (a_strike r) (a_cp r) (a_date r) = {}
          \<longrightarrow> OI_prev1 r = 0 \<and> OI_prev2 r = 0 \<and> delta_1 r = OI r \<and> delta_2 r = OI r)
     \<and> (card (sessions_before (txo_input df) (a_strike r) (a_cp r) (a_date r)) \<le> 1
          \<longrightarrow> OI_prev2 r = 0 \<and> delta_2 r = OI r)"
  proof
    fix r assume r: "r \<in> set (aggregate_daily_from_df df)"
    show "(sessions_before (txo_input df) (a_strike r) (a_cp r) (a_date r) = {}
          \<longrightarrow> OI_prev1 r = 0 \<and> OI_prev2 r = 0 \<and> delta_1 r = OI r \<and> delta_2 r = OI r)
     \<and> (card (sessions_before (txo_input df) (a_strike r) (a_cp r) (a_date r)) \<le> 1
          \<longrightarrow> OI_prev2 r = 0 \<and> delta_2 r = OI r)"
      by (rule first_sessions[OF txo_rows(2,3,4,5,6)[OF r]])
  qed
  have ka: "row_key ` set (load_and_process_agg df2) = fst ` set (loader_input df2)"
    using loader_keys(2)[of df2] by simp
  have kb: "row_key ` set (aggregate_daily_from_df df) = fst ` set (txo_input df)"
    using txo_keys(2)[of df] by simp
  from a ka b kb show ?thesis by (intro conjI)
qed

theorem first_session_filled_with_zero_witness:
  "sample_out ! 0 \<in> set (load_and_process_agg sample_df2)
   \<and> row_key (sample_out ! 0) = (1, 17000, ascii ''C'')
   \<and> sessions_before (loader_input sample_df2) 17000 (ascii ''C'') 1 = {}
   \<and> OI (sample_out ! 0) = 105
   \<and> OI_prev1 (sample_out ! 0) = 0 \<and> OI_prev2 (sample_out ! 0) = 0
   \<and> delta_1 (sample_out ! 0) = OI (sample_out ! 0)
   \<and> delta_2 (sample_out ! 0) = OI (sample_out ! 0)"
proof -
  have m: "sample_out ! 0 \<in> set (load_and_process_agg sample_df2)"
    unfolding sample_loader by (simp add: sample_out_def)
  have f: "a_date (sample_out ! 0) = 1" "a_strike (sample_out ! 0) = 17000"
    "a_cp (sample_out ! 0) = ascii ''C''" "OI (sample_out ! 0) = 105"
    by (simp_all add: sample_out_def)
  have e: "sessions_before (loader_input sample_df2) (a_strike (sample_out ! 0))
             (a_cp (sample_out ! 0)) (a_date (sample_out ! 0)) = {}"
    unfolding f by (rule sample_sessions(2))
  from first_session_filled_with_zero[of sample_df2 "[]"] m e
  have "OI_prev1 (sample_out ! 0) = 0 \<and> OI_prev2 (sample_out ! 0) = 0
        \<and> delta_1 (sample_out ! 0) = OI (sample_out ! 0)
        \<and> delta_2 (sample_out ! 0) = OI (sample_out ! 0)"
    by blast
  with m f sample_sessions(2) show ?thesis by (simp add: row_key_def)
qed

section \<open>Properties of the relative anomaly flag\<close>

lemma hist_recent_unfold:
  "hist_recent all_agg r = take 5 (sort_key (\<lambda>h. - a_date h) (filter (earlier_session r) all_agg))"
  by (simp add: hist_recent_def Let_def earlier_session_def[abs_def] conj_commute conj_left_commute)

lemma hist_recent_subset:
  "set (hist_recent all_agg r) \<subseteq> {h \<in> set all_agg. earlier_session r h}"
  unfolding hist_recent_unfold using set_take_subset[of 5] by force

lemma hist_recent_length:
  "length (hist_recent all_agg r) = min 5 (length (filter (earlier_session r) all_agg))"
  unfolding hist_recent_unfold by (simp add: min.commute)

lemma hist_recent_latest:
  assumes "h \<in> set all_agg" "earlier_session r h" "h \<notin> set (hist_recent all_agg r)"
    "x \<in> set (hist_recent all_agg r)"
  shows "a_date h \<le> a_date x"
proof -
  let ?D = "sort_key (\<lambda>h. - a_date h) (filter (earlier_session r) all_agg)"
  have hD: "h \<in> set ?D" using assms(1,2) by simp
  have "set (take 5 ?D @ drop 5 ?D) = set (take 5 ?D) \<union> set (drop 5 ?D)"
    by (rule set_append)
  then have "set ?D = set (take 5 ?D) \<union> set (drop 5 ?D)"
    by (simp only: append_take_drop_id)
  moreover have "h \<notin> set (take 5 ?D)" using assms(3) unfolding hist_recent_unfold .
  ultimately have h: "h \<in> set (drop 5 ?D)" using hD by blast
  have x: "x \<in> set (take 5 ?D)" using assms(4) unfolding hist_recent_unfold .
  have "sorted (map (\<lambda>h. - a_date h) (take 5 ?D @ drop 5 ?D))"
    by (simp only: append_take_drop_id sorted_sort_key)
  then have "- a_date x \<le> - a_date h"
    using x h unfolding map_append sorted_append by auto
  then show ?thesis by simp
qed

lemma rel_flag_integers:
  "rel_flag all_agg r \<longleftrightarrow>
     0 < sum_list (map (\<lambda>h. \<bar>delta_1 h\<bar>) (hist_recent all_agg r))
     \<and> 3 * sum_list (map (\<lambda>h. \<bar>delta_1 h\<bar>) (hist_recent all_agg r))
         < \<bar>delta_1 r\<bar> * int (length (hist_recent all_agg r))"
proof (cases "hist_recent all_agg r = []")
  case True
  then show ?thesis by (simp add: rel_flag_def mean_recent_def)
next
  case False
  let ?S = "sum_list (map (\<lambda>h. \<bar>delta_1 h\<bar>) (hist_recent all_agg r))"
  let ?n = "length (hist_recent all_agg r)"
  have n: "0 < real ?n" using False by simp
  have m: "mean_recent all_agg r = real_of_int ?S / real ?n"
    using False by (simp add: mean_recent_def Let_def)
  have 1: "0 < real_of_int ?S / real ?n \<longleftrightarrow> 0 < ?S"
    using n by (simp add: zero_less_divide_iff)
  have "real_of_int ?S / real ?n * 3 < real_of_int \<bar>delta_1 r\<bar>
        \<longleftrightarrow> real_of_int ?S * 3 < real_of_int \<bar>delta_1 r\<bar> * real ?n"
    using n by (simp add: field_simps)
  also have "\<dots> \<longleftrightarrow> real_of_int (3 * ?S) < real_of_int (\<bar>delta_1 r\<bar> * int ?n)"
    by (simp add: mult.commute)
  also have "\<dots> \<longleftrightarrow> 3 * ?S < \<bar>delta_1 r\<bar> * int ?n"
    by (rule of_int_less_iff)
  finally show ?thesis
    unfolding rel_flag_def Let_def m 1 by simp
qed

lemma sum_list_zero:
  fixes f :: "'a \<Rightarrow> int"
  shows "(\<forall>x \<in> set xs. f x = 0) \<Longrightarrow> sum_list (map f xs) = 0"
  by (induction xs) auto

lemma flat_then_500_aggregate:
  "aggregate_daily_from_df flat_then_500 = [flat_day1, flat_day2]"
  by (simp add: aggregate_daily_from_df_def select_session_def flat_then_500_def
        flat_day1_def flat_day2_def OI_for_calc_def session_regular_def agg_eval)

lemma flat_recent: "hist_recent [flat_day1, flat_day2] flat_day2 = [flat_day1]"
  by (simp add: hist_recent_def flat_day1_def flat_day2_def ascii_def)

lemma rising_recent: "hist_recent [rising_day1, rising_day2] rising_day2 = [rising_day1]"
  by (simp add: hist_recent_def rising_day1_def rising_day2_def ascii_def)

text \<open>
  C8 (as amended). The rows compared with are the rows of the same (strike,
  call/put) with a date strictly before the row's date, the 5 latest of them when
  there are more. The flag fires exactly when the mean of their absolute 1-session
  deltas is greater than 0 and the row's absolute delta exceeds 3 times that mean;
  it does not fire when the contract has no earlier session, nor when all of these
  deltas are 0.
\<close>

theorem relative_flag_rule:
  "(rel_flag all_agg r \<longleftrightarrow>
      0 < mean_recent all_agg r \<and> 3 * mean_recent all_agg r < real_of_int \<bar>delta_1 r\<bar>)
   \<and> (rel_flag all_agg r \<longleftrightarrow>
      0 < sum_list (map (\<lambda>h. \<bar>delta_1 h\<bar>) (hist_recent all_agg r))
      \<and> 3 * sum_list (map (\<lambda>h. \<bar>delta_1 h\<bar>) (hist_recent all_agg r))
          < \<bar>delta_1 r\<bar> * int (length (hist_recent all_agg r)))
   \<and> (hist_recent all_agg r \<noteq> [] \<longrightarrow>
        mean_recent all_agg r
          = real_of_int (sum_list (map (\<lambda>h. \<bar>delta_1 h\<bar>) (hist_recent all_agg r)))
            / real (length (hist_recent all_agg r)))
   \<and> set (hist_recent all_agg r) \<subseteq> {h \<in> set all_agg. earlier_session r h}
   \<and> length (hist_recent all_agg r) = min 5 (length (filter (earlier_session r) all_agg))
   \<and> (\<forall>h \<in> set all_agg. \<forall>x \<in> set (hist_recent all_agg r).
        earlier_session r h \<and> h \<notin> set (hist_recent all_agg r) \<longrightarrow> a_date h \<le> a_date x)
   \<and> (filter (earlier_session r) all_agg = [] \<longrightarrow> \<not> rel_flag all_agg r)
   \<and> ((\<forall>h \<in> set (hist_recent all_agg r). delta_1 h = 0) \<longrightarrow> \<not> rel_flag all_agg r)"
proof -
  have a: "rel_flag all_agg r \<longleftrightarrow>
      0 < mean_recent all_agg r \<and> 3 * mean_recent all_agg r < real_of_int \<bar>delta_1 r\<bar>"
    by (simp add: rel_flag_def Let_def mult.commute)
  have c: "hist_recent all_agg r \<noteq> [] \<longrightarrow>
        mean_recent all_agg r
          = real_of_int (sum_list (map (\<lambda>h. \<bar>delta_1 h\<bar>) (hist_recent all_agg r)))
            / real (length (hist_recent all_agg r))"
    by (simp add: mean_recent_def Let_def)
  have f: "\<forall>h \<in> set all_agg. \<forall>x \<in> set (hist_recent all_agg r).
        earlier_session r h \<and> h \<notin> set (hist_recent all_agg r) \<longrightarrow> a_date h \<le> a_date x"
    using hist_recent_latest by blast
  have g: "filter (earlier_session r) all_agg = [] \<longrightarrow> \<not> rel_flag all_agg r"
    by (simp add: rel_flag_def mean_recent_def hist_recent_unfold)
  have h: "(\<forall>h \<in> set (hist_recent all_agg r). delta_1 h = 0) \<longrightarrow> \<not> rel_flag all_agg r"
  proof
    assume z: "\<forall>h \<in> set (hist_recent all_agg r). delta_1 h = 0"
    have "sum_list (map (\<lambda>h. \<bar>delta_1 h\<bar>) (hist_recent all_agg r)) = 0"
      by (rule sum_list_zero) (use z in simp)
    then show "\<not> rel_flag all_agg r" unfolding rel_flag_integers by simp
  qed
  from a rel_flag_integers[of all_agg r] c hist_recent_subset[of all_agg r]
    hist_recent_length[of all_agg r] f g h
  show ?thesis by (intro conjI)
qed

text \<open>
  The claim as stated fails when the mean is 0: the contract has an earlier session
  with delta 0, the row's absolute delta 500 exceeds 3 times the mean 0, and the flag
  does not fire.
\<close>

theorem relative_flag_counterexample:
  "aggregate_daily_from_df flat_then_500 = [flat_day1, flat_day2]
   \<and> hist_recent [flat_day1, flat_day2] flat_day2 = [flat_day1]
   \<and> mean_recent [flat_day1, flat_day2] flat_day2 = 0
   \<and> \<bar>delta_1 flat_day2\<bar> = 500
   \<and> 3 * mean_recent [flat_day1, flat_day2] flat_day2 < real_of_int \<bar>delta_1 flat_day2\<bar>
   \<and> rel_flag [flat_day1, flat_day2] flat_day2 = False"
proof -
  have m: "mean_recent [flat_day1, flat_day2] flat_day2 = 0"
    unfolding mean_recent_def Let_def flat_recent by (simp add: flat_day1_def)
  have d: "\<bar>delta_1 flat_day2\<bar> = 500" by (simp add: flat_day2_def)
  have lt: "3 * mean_recent [flat_day1, flat_day2] flat_day2 < real_of_int \<bar>delta_1 flat_day2\<bar>"
    unfolding m d by simp
  have f: "rel_flag [flat_day1, flat_day2] flat_day2 = False"
    unfolding rel_flag_def Let_def m by simp
  from flat_then_500_aggregate flat_recent m d lt f show ?thesis by (intro conjI)
qed

theorem relative_flag_rule_witness:
  "hist_recent [rising_day1, rising_day2] rising_day2 = [rising_day1]
   \<and> hist_recent [rising_day1, rising_day2] rising_day2 \<noteq> []
   \<and> mean_recent [rising_day1, rising_day2] rising_day2 = 100
   \<and> \<bar>delta_1 rising_day2\<bar> = 350
   \<and> rel_flag [rising_day1, rising_day2] rising_day2"
proof -
  have ne: "hist_recent [rising_day1, rising_day2] rising_day2 \<noteq> []"
    unfolding rising_recent by simp
  have s: "real_of_int (sum_list (map (\<lambda>h. \<bar>delta_1 h\<bar>)
                (hist_recent [rising_day1, rising_day2] rising_day2)))
            / real (length (hist_recent [rising_day1, rising_day2] rising_day2)) = 100"
    unfolding rising_recent by (simp add: rising_day1_def)
  have d: "\<bar>delta_1 rising_day2\<bar> = 350" by (simp add: rising_day2_def)
  note rule = relative_flag_rule[of "[rising_day1, rising_day2]" rising_day2]
  have m: "mean_recent [rising_day1, rising_day2] rising_day2 = 100"
    using rule ne s by simp
  have "rel_flag [rising_day1, rising_day2] rising_day2"
    using rule m d by simp
  with rising_recent ne m d show ?thesis by (intro conjI)
qed

section \<open>Properties of the persistence\<close>

text \<open>
  The importer never reaches its inserts: the safety level is changed after the
  transaction has begun, the engine refuses, and the function returns 0 with the
  table as it was.
\<close>

lemma batch_insert_options_fast_stores_nothing:
  "batch_insert_options_fast E T options_list = (T, 0)"
  by (simp add: batch_insert_options_fast_def begin_transaction_def pragma_synchronous_def)

lemma import_as_options_stores_nothing:
  "import_as_options E today filename T chunk = (T, 0)"
  by (simp add: import_as_options_def batch_insert_options_fast_stores_nothing)

lemma import_of_one_row_stores_nothing:
  "import_as_options text_engine (ascii ''2024-05-06'') (ascii ''a.csv'') [] [stored_opt]
     = ([], 0)"
  by (simp add: import_as_options_def batch_insert_options_fast_def begin_transaction_def
        pragma_synchronous_def)

text \<open>
  The strike column of the importer's table is \<^verbatim>\<open>REAL\<close> and the one of the
  downloader's table \<^verbatim>\<open>INTEGER\<close>: a strike written as an integer and the same strike
  written as a real give one key.
\<close>

lemmas store_eval =
  store_option_def store_txo_def apply_affinity_def whole_number_def real_number_def
  text_engine_def value_affinities_def quote_values_def float64_small

lemma strike_written_as_integer_conflicts:
  "conflicts [store_option text_engine real_strike_row] (store_option text_engine int_strike_row)"
  by (simp add: conflicts_def unique_key_def sql_eq_def store_eval real_strike_row_def
        int_strike_row_def)

lemma strike_written_as_real_same_key:
  "same_key (store_txo text_engine old_quote) (store_txo text_engine float_quote)"
  by (simp add: same_key_def txo_key_def sql_eq_def store_eval old_quote_def float_quote_def)
















end
